theory Spec2Isabelle
  imports Complex_Main "HOL-Library.AList" "HOL-Library.Sublist" "HOL-Library.Product_Lexorder"
    "HOL-Library.List_Lexorder" "HOL-Library.Char_ord"
begin

section \<open>Common modelling conventions\<close>

text \<open>
  Python floats are idealised as exact reals (\<^typ>\<open>real\<close>); rounding is outside this
  development. A Python \<open>dict\<close> is an association list with distinct keys that keeps
  insertion order, as CPython's dictionaries do: assignment to an existing key replaces the
  value in place, assignment to a new key appends (\<^const>\<open>AList.update\<close>).
  Exceptions are values of type \<open>error\<close>; a call that may raise returns \<open>error + 'a\<close>.
\<close>

datatype error =
  RuntimeError | ValueError | TypeError | IndexError | KeyError | ZeroDivisionError | OtherError

text \<open>The slice \<open>xs[:k]\<close>: a negative bound counts from the end.\<close>

definition py_take :: "int \<Rightarrow> 'a list \<Rightarrow> 'a list" where
  "py_take k xs = (if 0 \<le> k then take (nat k) xs else take (length xs - nat (- k)) xs)"

text \<open>
  \<open>sorted(xs, key=f, reverse=True)\<close>: CPython reverses the list, sorts it stably in
  ascending key order and reverses the outcome, so that elements with equal keys keep their
  original relative order.
\<close>

definition sorted_reverse :: "('a \<Rightarrow> 'k::linorder) \<Rightarrow> 'a list \<Rightarrow> 'a list" where
  "sorted_reverse f xs = rev (sort_key f (rev xs))"

section \<open>api/matcher.py\<close>

definition HISTORY_WEIGHT :: real where
  "HISTORY_WEIGHT = 7 / 10"

definition VECTOR_WEIGHT :: real where
  "VECTOR_WEIGHT = 3 / 10"

subsection \<open>normalize_frequencies\<close>

definition normalize_frequencies :: "(string \<times> int) list \<Rightarrow> (string \<times> real) list" where
  "normalize_frequencies frequencies =
     (if frequencies = [] then []
      else let max_freq = Max (set (map snd frequencies)) in
        if max_freq = 0 then map (\<lambda>(sku, freq). (sku, 0)) frequencies
        else map (\<lambda>(sku, freq). (sku, real_of_int freq / real_of_int max_freq)) frequencies)"

subsection \<open>calculate_hybrid_score\<close>

record score =
  historical_score :: real
  vector_score :: real
  historical_frequency :: int
  vector_similarity :: real
  final_score :: real

text \<open>The body of the loop over \<open>normalized_history.items()\<close>.\<close>

definition add_historical ::
  "(string \<times> int) list \<Rightarrow> string \<times> real \<Rightarrow> (string \<times> score) list \<Rightarrow> (string \<times> score) list"
where
  "add_historical historical_mappings = (\<lambda>(sku, normalized_freq) combined_scores.
     AList.update sku
       \<lparr>historical_score = normalized_freq * HISTORY_WEIGHT,
        vector_score = 0,
        historical_frequency =
          (case map_of historical_mappings sku of Some f \<Rightarrow> f | None \<Rightarrow> 0),
        vector_similarity = 0,
        final_score = normalized_freq * HISTORY_WEIGHT\<rparr>
       combined_scores)"

text \<open>The body of the loop over \<open>vector_results\<close>.\<close>

definition add_vector ::
  "string \<times> real \<Rightarrow> (string \<times> score) list \<Rightarrow> (string \<times> score) list"
where
  "add_vector = (\<lambda>(sku, vector_sim) combined_scores.
     case map_of combined_scores sku of
       None \<Rightarrow>
         AList.update sku
           \<lparr>historical_score = 0,
            vector_score = vector_sim * VECTOR_WEIGHT,
            historical_frequency = 0,
            vector_similarity = vector_sim,
            final_score = vector_sim * VECTOR_WEIGHT\<rparr>
           combined_scores
     | Some r \<Rightarrow>
         AList.update sku
           (r\<lparr>vector_score := vector_sim * VECTOR_WEIGHT,
              vector_similarity := vector_sim,
              final_score := historical_score r + vector_sim * VECTOR_WEIGHT\<rparr>)
           combined_scores)"

text \<open>
  What one vector entry does to the record found under its sku (\<open>None\<close>: no record
  yet); used to state what the second loop computes.
\<close>

definition vector_entry :: "score option \<Rightarrow> real \<Rightarrow> score" where
  "vector_entry ro vector_sim =
     (case ro of
        None \<Rightarrow>
          \<lparr>historical_score = 0,
           vector_score = vector_sim * VECTOR_WEIGHT,
           historical_frequency = 0,
           vector_similarity = vector_sim,
           final_score = vector_sim * VECTOR_WEIGHT\<rparr>
      | Some r \<Rightarrow>
          r\<lparr>vector_score := vector_sim * VECTOR_WEIGHT,
            vector_similarity := vector_sim,
            final_score := historical_score r + vector_sim * VECTOR_WEIGHT\<rparr>)"

text \<open>Step 4 of \<open>calculate_hybrid_score\<close>: both loops, starting from the empty dict.\<close>

definition combine_scores ::
  "(string \<times> int) list \<Rightarrow> (string \<times> real) list \<Rightarrow> (string \<times> real) list
     \<Rightarrow> (string \<times> score) list"
where
  "combine_scores historical_mappings normalized_history vector_results =
     fold add_vector vector_results
       (fold (add_historical historical_mappings) normalized_history [])"

text \<open>Step 5: sort by final score, descending, and keep the first \<open>top_k\<close>.\<close>

definition rank_scores :: "int \<Rightarrow> (string \<times> score) list \<Rightarrow> (string \<times> real \<times> score) list" where
  "rank_scores top_k combined_scores =
     map (\<lambda>(sku, metadata). (sku, final_score metadata, metadata))
       (py_take top_k (sorted_reverse (\<lambda>x. final_score (snd x)) combined_scores))"

text \<open>
  The elements of a list in order of first appearance, each once: the order in which a
  Python dict holds keys assigned in the order of the list.
\<close>

fun first_seen :: "'a list \<Rightarrow> 'a list" where
  "first_seen [] = []"
| "first_seen (x # xs) = x # filter (\<lambda>y. y \<noteq> x) (first_seen xs)"

text \<open>
  The collaborators of the query path. Each is a call that may raise; what it answers is
  a parameter of the model. Similarities handed to the ranker are finite floats.
\<close>

type_synonym vec = "real list"

type_synonym item = "(string \<times> string) list"

record env =
  get_all_historical_mappings :: "string \<Rightarrow> error + (string \<times> int) list"
  generate_embedding :: "string \<Rightarrow> error + vec"
  search_vectors_call :: "vec \<Rightarrow> int \<Rightarrow> error + (string \<times> real) list"
  get_item_by_sku :: "string \<Rightarrow> error + item option"

definition calculate_hybrid_score ::
  "env \<Rightarrow> string \<Rightarrow> int \<Rightarrow> vec option \<Rightarrow> (string \<times> real) list option
     \<Rightarrow> error + (string \<times> real \<times> score) list"
where
  "calculate_hybrid_score e requirement_string top_k query_vector vector_results =
     (case get_all_historical_mappings e requirement_string of
        Inl err \<Rightarrow> Inl err
      | Inr historical_mappings \<Rightarrow>
          let normalized_history = normalize_frequencies historical_mappings;
              query_vector' =
                (if vector_results = None \<and> query_vector = None
                 then (case generate_embedding e requirement_string of
                         Inl err \<Rightarrow> None | Inr v \<Rightarrow> Some v)
                 else query_vector);
              vector_results' =
                (case vector_results of
                   Some vr \<Rightarrow> vr
                 | None \<Rightarrow>
                     (case query_vector' of
                        None \<Rightarrow> []
                      | Some q \<Rightarrow>
                          (case search_vectors_call e q (top_k * 2) of
                             Inl err \<Rightarrow> [] | Inr vr \<Rightarrow> vr)))
          in Inr (rank_scores top_k
                   (combine_scores historical_mappings normalized_history vector_results')))"

subsection \<open>get_suggestions\<close>

record suggestion =
  s_sku :: string
  s_item_name :: "string option"
  s_confidence_score :: real
  s_historical_frequency :: int
  s_vector_similarity :: real
  s_historical_score :: real
  s_vector_score :: real
  s_image :: "string option"
  s_price :: "string option"

text \<open>\<open>item.get(key, default)\<close> and \<open>item.get(key)\<close> on a row dict.\<close>

definition item_get :: "item \<Rightarrow> string \<Rightarrow> string option \<Rightarrow> string option" where
  "item_get it key dflt = (case map_of it key of Some v \<Rightarrow> Some v | None \<Rightarrow> dflt)"

text \<open>Python truthiness of \<open>item\<close>: \<open>None\<close> and the empty dict are falsy.\<close>

definition truthy :: "item option \<Rightarrow> bool" where
  "truthy it = (case it of None \<Rightarrow> False | Some d \<Rightarrow> d \<noteq> [])"

definition make_suggestion :: "string \<Rightarrow> real \<Rightarrow> score \<Rightarrow> item option \<Rightarrow> suggestion" where
  "make_suggestion sku final metadata it =
     \<lparr>s_sku = sku,
      s_item_name = (if truthy it then item_get (the it) ''name'' (Some ''Unknown'') else None),
      s_confidence_score = final,
      s_historical_frequency = historical_frequency metadata,
      s_vector_similarity = vector_similarity metadata,
      s_historical_score = historical_score metadata,
      s_vector_score = vector_score metadata,
      s_image = (if truthy it then item_get (the it) ''image'' None else None),
      s_price = (if truthy it then item_get (the it) ''amt'' None else None)\<rparr>"

text \<open>The loop over \<open>hybrid_results\<close>; it stops at the first lookup that raises.\<close>

fun suggestion_loop ::
  "env \<Rightarrow> bool \<Rightarrow> (string \<times> item) list option \<Rightarrow> (string \<times> real \<times> score) list
     \<Rightarrow> error + suggestion list"
where
  "suggestion_loop e skip_item_lookup items_cache [] = Inr []"
| "suggestion_loop e skip_item_lookup items_cache ((sku, final, metadata) # rest) =
     (case (case items_cache of
              Some c \<Rightarrow> Inr (map_of c sku)
            | None \<Rightarrow> (if skip_item_lookup then Inr None else get_item_by_sku e sku)) of
        Inl err \<Rightarrow> Inl err
      | Inr it \<Rightarrow>
          (case suggestion_loop e skip_item_lookup items_cache rest of
             Inl err \<Rightarrow> Inl err
           | Inr suggestions \<Rightarrow>
               if \<not> skip_item_lookup \<and> items_cache = None \<and> \<not> truthy it
               then Inr suggestions
               else Inr (make_suggestion sku final metadata it # suggestions)))"

text \<open>The \<open>try\<close> block of \<open>get_suggestions\<close>.\<close>

definition get_suggestions_body ::
  "env \<Rightarrow> string \<Rightarrow> int \<Rightarrow> vec option \<Rightarrow> (string \<times> real) list option \<Rightarrow> bool
     \<Rightarrow> (string \<times> item) list option \<Rightarrow> error + suggestion list"
where
  "get_suggestions_body e requirement_string top_k query_vector vector_results
       skip_item_lookup items_cache =
     (case calculate_hybrid_score e requirement_string top_k query_vector vector_results of
        Inl err \<Rightarrow> Inl err
      | Inr hybrid_results \<Rightarrow> suggestion_loop e skip_item_lookup items_cache hybrid_results)"

text \<open>\<open>get_suggestions\<close>: \<open>except Exception\<close> turns every error of the body into \<open>[]\<close>.\<close>

definition get_suggestions ::
  "env \<Rightarrow> string \<Rightarrow> int \<Rightarrow> vec option \<Rightarrow> (string \<times> real) list option \<Rightarrow> bool
     \<Rightarrow> (string \<times> item) list option \<Rightarrow> error + suggestion list"
where
  "get_suggestions e requirement_string top_k query_vector vector_results
       skip_item_lookup items_cache =
     (case get_suggestions_body e requirement_string top_k query_vector vector_results
             skip_item_lookup items_cache of
        Inl err \<Rightarrow> Inr []
      | Inr suggestions \<Rightarrow> Inr suggestions)"


section \<open>api/database.py\<close>

text \<open>
  The results of numpy's float division. Dividing by zero raises nothing in numpy: it
  yields \<open>nan\<close> (for \<open>0 / 0\<close>) or an infinity, with a warning only.
\<close>

datatype npfloat = Fin real | PosInf | NegInf | NaN

definition np_divide :: "real \<Rightarrow> real \<Rightarrow> npfloat" where
  "np_divide a b =
     (if b \<noteq> 0 then Fin (a / b)
      else if a = 0 then NaN
      else if 0 < a then PosInf else NegInf)"

text \<open>The order numpy sorts floats in: \<open>-inf\<close>, the finite values, \<open>inf\<close>, and \<open>nan\<close> last.\<close>

fun np_rank :: "npfloat \<Rightarrow> nat \<times> real" where
  "np_rank NegInf = (0, 0)"
| "np_rank (Fin x) = (1, x)"
| "np_rank PosInf = (2, 0)"
| "np_rank NaN = (3, 0)"

text \<open>
  \<open>np.argsort\<close> is numpy's, not this repository's, and the source calls it with the
  default \<open>kind\<close>, which is not a stable sort. It is a parameter of the model, of which
  only numpy's contract is known: for every array it returns a permutation of the indices
  that puts the values in ascending order. Where values are equal the contract fixes no
  order (it depends on the numpy build and the machine).
\<close>

type_synonym argsort_fn = "npfloat list \<Rightarrow> nat list"

definition argsort_ok :: "argsort_fn \<Rightarrow> bool" where
  "argsort_ok np_argsort =
     (\<forall>a. distinct (np_argsort a) \<and> set (np_argsort a) = {0..<length a} \<and>
          sorted (map (\<lambda>i. np_rank (a ! i)) (np_argsort a)))"

text \<open>
  Two functions that meet the contract and differ on ties: the first returns equal values
  in ascending index order, the second in descending index order. On an array of two equal
  values they give the only two answers the contract allows.
\<close>

definition argsort_ties_ascending :: argsort_fn where
  "argsort_ties_ascending a = sort_key (\<lambda>i. np_rank (a ! i)) [0..<length a]"

definition argsort_ties_descending :: argsort_fn where
  "argsort_ties_descending a = sort_key (\<lambda>i. np_rank (a ! i)) (rev [0..<length a])"

definition dot :: "vec \<Rightarrow> vec \<Rightarrow> real" where
  "dot u v = sum_list (map2 (*) u v)"

definition linalg_norm :: "vec \<Rightarrow> real" where
  "linalg_norm v = sqrt (sum_list (map (\<lambda>x. x * x) v))"

text \<open>
  \<open>np.dot(matrix, vector)\<close> and \<open>np.dot(queries, matrix.T)\<close>; numpy raises
  \<open>ValueError\<close> when the inner dimensions differ.
\<close>

definition np_dot_mv :: "vec list \<Rightarrow> vec \<Rightarrow> error + real list" where
  "np_dot_mv m q =
     (if list_all (\<lambda>row. length row = length q) m
      then Inr (map (\<lambda>row. dot row q) m)
      else Inl ValueError)"

definition np_dot_mm :: "vec list \<Rightarrow> vec list \<Rightarrow> error + real list list" where
  "np_dot_mm qs m =
     (if list_all (\<lambda>q. list_all (\<lambda>row. length row = length q) m) qs
      then Inr (map (\<lambda>q. map (\<lambda>row. dot q row) m) qs)
      else Inl ValueError)"

text \<open>The module's global cache: four variables, each \<open>None\<close> until a load assigns it.\<close>

record cache =
  vectors_cache :: "vec list option"
  item_skus :: "string list option"
  item_names :: "string list option"
  item_sku_to_index :: "(string \<times> nat) list option"

definition initial_cache :: cache where
  "initial_cache =
     \<lparr>vectors_cache = None, item_skus = None, item_names = None, item_sku_to_index = None\<rparr>"

text \<open>
  What \<open>load_vectors_to_memory\<close> finds on disk: no file, a file \<open>pickle.load\<close> fails on,
  or a pickled dict, of which the keys \<open>vectors\<close>, \<open>item_skus\<close> and \<open>item_names\<close>
  matter (each present or not).
\<close>

record cache_data =
  cd_vectors :: "vec list option"
  cd_item_skus :: "string list option"
  cd_item_names :: "string list option"

datatype cache_file = Missing | Unreadable error | Pickled cache_data

text \<open>
  \<open>load_vectors_to_memory\<close> returns the exception it re-raises (if any) and the globals as
  it leaves them: the assignments made before a failure stay.
\<close>

definition load_vectors_to_memory :: "cache_file \<Rightarrow> cache \<Rightarrow> error option \<times> cache" where
  "load_vectors_to_memory file st =
     (case file of
        Missing \<Rightarrow> (None, st)
      | Unreadable err \<Rightarrow> (Some err, st)
      | Pickled cache_data \<Rightarrow>
          (case cd_vectors cache_data of
             None \<Rightarrow> (Some KeyError, st)
           | Some vectors \<Rightarrow>
               let st1 = st\<lparr>vectors_cache := Some vectors\<rparr> in
               (case cd_item_skus cache_data of
                  None \<Rightarrow> (Some ValueError, st1)
                | Some skus \<Rightarrow>
                    let st2 = st1\<lparr>item_skus := Some skus\<rparr> in
                    (case cd_item_names cache_data of
                       None \<Rightarrow> (Some KeyError, st2)
                     | Some names \<Rightarrow>
                         (None,
                          st2\<lparr>item_names := Some names,
                              item_sku_to_index :=
                                Some (fold (\<lambda>(idx, sku). AList.update sku idx)
                                        (enumerate 0 skus) [])\<rparr>)))))"

definition get_vectors ::
  "cache \<Rightarrow> error + (vec list \<times> string list option \<times> string list option)"
where
  "get_vectors st =
     (case vectors_cache st of
        None \<Rightarrow> Inl RuntimeError
      | Some vectors \<Rightarrow> Inr (vectors, item_skus st, item_names st))"

definition cosine_similarity :: "vec \<Rightarrow> vec \<Rightarrow> error + npfloat" where
  "cosine_similarity vec1 vec2 =
     (if length vec1 \<noteq> length vec2 then Inl ValueError
      else
        let dot_product = dot vec1 vec2;
            norm1 = linalg_norm vec1;
            norm2 = linalg_norm vec2
        in if norm1 = 0 \<or> norm2 = 0 then Inr (Fin 0)
           else Inr (np_divide dot_product (norm1 * norm2)))"

text \<open>The similarities of \<open>search_vectors\<close>: one division per row, unguarded.\<close>

definition similarities_single :: "vec list \<Rightarrow> vec \<Rightarrow> error + npfloat list" where
  "similarities_single m query_vector =
     (case np_dot_mv m query_vector of
        Inl err \<Rightarrow> Inl err
      | Inr dots \<Rightarrow>
          Inr (map2 np_divide dots
                 (map (\<lambda>row. linalg_norm row * linalg_norm query_vector) m)))"

text \<open>\<open>np.argsort(similarities)[::-1][:top_k]\<close>.\<close>

definition top_indices :: "argsort_fn \<Rightarrow> int \<Rightarrow> npfloat list \<Rightarrow> nat list" where
  "top_indices np_argsort top_k similarities = py_take top_k (rev (np_argsort similarities))"

text \<open>
  The result loop: \<open>_item_skus[idx]\<close> raises \<open>TypeError\<close> when \<open>_item_skus\<close> is \<open>None\<close>
  and \<open>IndexError\<close> when the index is out of range.
\<close>

fun collect_results ::
  "string list option \<Rightarrow> npfloat list \<Rightarrow> nat list \<Rightarrow> error + (string \<times> npfloat) list"
where
  "collect_results skus similarities [] = Inr []"
| "collect_results skus similarities (idx # rest) =
     (case skus of
        None \<Rightarrow> Inl TypeError
      | Some s \<Rightarrow>
          if idx < length s
          then (case collect_results skus similarities rest of
                  Inl err \<Rightarrow> Inl err
                | Inr results \<Rightarrow> Inr ((s ! idx, similarities ! idx) # results))
          else Inl IndexError)"

definition search_vectors ::
  "argsort_fn \<Rightarrow> cache \<Rightarrow> vec \<Rightarrow> int \<Rightarrow> error + (string \<times> npfloat) list"
where
  "search_vectors np_argsort st query_vector top_k =
     (case vectors_cache st of
        None \<Rightarrow> Inl RuntimeError
      | Some m \<Rightarrow>
          (case similarities_single m query_vector of
             Inl err \<Rightarrow> Inl err
           | Inr similarities \<Rightarrow>
               collect_results (item_skus st) similarities
                 (top_indices np_argsort top_k similarities)))"

text \<open>\<open>norms[norms == 0] = 1e-10\<close>.\<close>

definition fix_norm :: "real \<Rightarrow> real" where
  "fix_norm n = (if n = 0 then 1 / 10 ^ 10 else n)"

definition similarities_batch :: "vec list \<Rightarrow> vec list \<Rightarrow> error + npfloat list list" where
  "similarities_batch m query_vectors =
     (let cache_norms = map (\<lambda>row. fix_norm (linalg_norm row)) m;
          query_norms = map (\<lambda>q. fix_norm (linalg_norm q)) query_vectors
      in case np_dot_mm query_vectors m of
           Inl err \<Rightarrow> Inl err
         | Inr dots \<Rightarrow>
             Inr (map2 (\<lambda>drow qn. map2 (\<lambda>d cn. np_divide d (qn * cn)) drow cache_norms)
                    dots query_norms))"

text \<open>The loop over the queries; it stops at the first query whose result loop raises.\<close>

fun collect_batch ::
  "argsort_fn \<Rightarrow> string list option \<Rightarrow> int \<Rightarrow> npfloat list list
     \<Rightarrow> error + (string \<times> npfloat) list list"
where
  "collect_batch np_argsort skus top_k [] = Inr []"
| "collect_batch np_argsort skus top_k (sims # rest) =
     (case collect_results skus sims (top_indices np_argsort top_k sims) of
        Inl err \<Rightarrow> Inl err
      | Inr r \<Rightarrow>
          (case collect_batch np_argsort skus top_k rest of
             Inl err \<Rightarrow> Inl err
           | Inr rs \<Rightarrow> Inr (r # rs)))"

definition search_vectors_batch ::
  "argsort_fn \<Rightarrow> cache \<Rightarrow> vec list \<Rightarrow> int \<Rightarrow> error + (string \<times> npfloat) list list"
where
  "search_vectors_batch np_argsort st query_vectors top_k =
     (case vectors_cache st of
        None \<Rightarrow> Inl RuntimeError
      | Some m \<Rightarrow>
          if query_vectors = [] then Inr []
          else (case similarities_batch m query_vectors of
                  Inl err \<Rightarrow> Inl err
                | Inr similarities \<Rightarrow>
                    collect_batch np_argsort (item_skus st) top_k similarities))"

section \<open>api/matcher.py: generate_embeddings_batch\<close>





section \<open>scripts/generate_vectors.py\<close>

text \<open>
  What happens to one batch, as far as the worker can observe it: whether
  \<open>connect_sqlite\<close> and the construction of the client succeed, what the embedding call
  answers, what \<open>update_vector\<close> returns for each sku (it catches every exception and
  returns a boolean), and how \<open>conn.commit()\<close> ends.
\<close>

datatype commit_outcome =
  Committed | LockedThenCommitted | LockedThenFailed | OperationalFailure | OtherFailure

record batch_run =
  connects :: bool
  client_created :: bool
  embedding_response :: "error + vec list"
  update_vector :: "string \<Rightarrow> bool"
  commit :: commit_outcome

text \<open>\<open>generate_embeddings_batch(client, item_names)\<close> of this script.\<close>

definition worker_embeddings :: "error + vec list \<Rightarrow> string list \<Rightarrow> vec option list" where
  "worker_embeddings response names =
     (case response of
        Inr embeddings \<Rightarrow> map Some embeddings
      | Inl err \<Rightarrow> replicate (length names) None)"

text \<open>The loop over \<open>zip(item_skus, embeddings)\<close> with its two local counters.\<close>

fun count_loop :: "(string \<Rightarrow> bool) \<Rightarrow> (string \<times> vec option) list \<Rightarrow> nat \<times> nat \<Rightarrow> nat \<times> nat" where
  "count_loop upd [] (success_count, failed_count) = (success_count, failed_count)"
| "count_loop upd ((sku, embedding) # rest) (success_count, failed_count) =
     (case embedding of
        None \<Rightarrow> count_loop upd rest (success_count, failed_count + 1)
      | Some v \<Rightarrow>
          if upd sku then count_loop upd rest (success_count + 1, failed_count)
          else count_loop upd rest (success_count, failed_count + 1))"

text \<open>
  \<open>process_batch_worker\<close> on the global counters \<open>(success_counter, failed_counter)\<close>:
  what the future yields (an exception, or the pair returned) and the counters afterwards.
  A failing \<open>connect_sqlite\<close> raises out of the worker; an exception inside the outer
  \<open>try\<close> (the client cannot be built, or the commit fails with anything but an
  \<open>OperationalError\<close>) ends in \<open>return 0, len(batch_items)\<close>, past the update of the
  global counters.
\<close>

definition process_batch_worker ::
  "batch_run \<Rightarrow> (string \<times> string) list \<Rightarrow> nat \<times> nat \<Rightarrow> (error + nat \<times> nat) \<times> (nat \<times> nat)"
where
  "process_batch_worker run batch_items counters =
     (if \<not> connects run then (Inl OtherError, counters)
      else if \<not> client_created run then (Inr (0, length batch_items), counters)
      else
        let skus = map fst batch_items;
            names = map snd batch_items;
            embeddings = worker_embeddings (embedding_response run) names;
            (success_count, failed_count) =
              count_loop (update_vector run) (zip skus embeddings) (0, 0)
        in if commit run = OtherFailure then (Inr (0, length batch_items), counters)
           else (Inr (success_count, failed_count),
                 (fst counters + success_count, snd counters + failed_count)))"

text \<open>The batches of \<open>main\<close>: \<open>items[i:i + BATCH_SIZE]\<close> for \<open>i\<close> in steps of \<open>BATCH_SIZE\<close>.\<close>

function batches_from :: "nat \<Rightarrow> 'a list \<Rightarrow> nat \<Rightarrow> 'a list list" where
  "batches_from B items i =
     (if i < length items \<and> 0 < B
      then take B (drop i items) # batches_from B items (i + B)
      else [])"
  by pat_completeness auto
termination
  by (relation "measure (\<lambda>(B, items, i). length items - i)") auto

text \<open>
  The workers, one per batch. Their order of completion does not matter to the counters
  (each adds its own counts under the lock), so they are run in the order of submission;
  the \<open>n\<close>-th batch meets the circumstances \<open>runs n\<close>.
\<close>

fun run_batches ::
  "(nat \<Rightarrow> batch_run) \<Rightarrow> nat \<Rightarrow> (string \<times> string) list list \<Rightarrow> nat \<times> nat \<Rightarrow> nat \<times> nat"
where
  "run_batches runs n [] counters = counters"
| "run_batches runs n (batch # rest) counters =
     run_batches runs (Suc n) rest (snd (process_batch_worker (runs n) batch counters))"

text \<open>
  \<open>main\<close> for a positive \<open>BATCH_SIZE\<close>, an API key and a working main connection:
  the final \<open>(success_counter, failed_counter)\<close>. With no items it returns before the
  counters are reset.
\<close>

definition generate_vectors_main ::
  "(nat \<Rightarrow> batch_run) \<Rightarrow> nat \<Rightarrow> (string \<times> string) list \<Rightarrow> nat \<times> nat \<Rightarrow> nat \<times> nat"
where
  "generate_vectors_main runs BATCH_SIZE items counters =
     (if items = [] then counters
      else run_batches runs 0 (batches_from BATCH_SIZE items 0) (0, 0))"

text \<open>
  A batch whose worker reaches the update of the global counters: nothing raises on the
  way, and the embedding call (when it succeeds) answers one embedding per item.
\<close>

definition reaches_counters :: "batch_run \<Rightarrow> (string \<times> string) list \<Rightarrow> bool" where
  "reaches_counters run batch_items =
     (connects run \<and> client_created run \<and> commit run \<noteq> OtherFailure \<and>
      (case embedding_response run of
         Inr embeddings \<Rightarrow> length embeddings = length batch_items
       | Inl err \<Rightarrow> True))"

section \<open>Auxiliary facts on lists and association lists\<close>

lemma map_of_map_snd:
  "map_of (map (\<lambda>p. (fst p, g (snd p))) f) k = map_option g (map_of f k)"
  by (induction f) auto

lemma map_of_snoc:
  "map_of (xs @ [(k, v)]) x =
     (case map_of xs x of Some y \<Rightarrow> Some y | None \<Rightarrow> if x = k then Some v else None)"
  by (induction xs) auto

lemma map_of_rev_distinct:
  assumes "distinct (map fst xs)"
  shows "map_of (rev xs) = map_of xs"
proof
  fix k
  have d: "distinct (map fst (rev xs))" using assms by (simp add: rev_map[symmetric])
  show "map_of (rev xs) k = map_of xs k"
  proof (cases "map_of xs k")
    case None
    then have "map_of (rev xs) k = None" by (simp add: map_of_eq_None_iff)
    then show ?thesis using None by simp
  next
    case (Some v)
    then have "(k, v) \<in> set (rev xs)" by (auto dest: map_of_SomeD)
    with d show ?thesis using Some by simp
  qed
qed

lemma py_take_prefix: "prefix (py_take k xs) xs"
  by (simp add: py_take_def take_is_prefix)

lemma set_py_take: "set (py_take k xs) \<subseteq> set xs"
  by (auto simp: py_take_def dest: in_set_takeD)

lemma length_py_take: "0 \<le> k \<Longrightarrow> length (py_take k xs) = min (nat k) (length xs)"
  by (simp add: py_take_def)

lemma sorted_wrt_py_take: "sorted_wrt P xs \<Longrightarrow> sorted_wrt P (py_take k xs)"
  by (simp add: py_take_def sorted_wrt_take)

lemma sorted_reverse_stable:
  "filter (\<lambda>y. f y = k) (sorted_reverse f xs) = filter (\<lambda>y. f y = k) xs"
proof -
  have "filter (\<lambda>y. f y = k) (sorted_reverse f xs) =
        rev (filter (\<lambda>y. f y = k) (sort_key f (rev xs)))"
    by (simp only: sorted_reverse_def rev_filter)
  also have "\<dots> = rev (filter (\<lambda>y. f y = k) (rev xs))"
    by (simp only: sort_key_stable)
  also have "\<dots> = filter (\<lambda>y. f y = k) xs"
    by (simp only: rev_filter rev_rev_ident)
  finally show ?thesis .
qed

lemma sorted_reverse_descending:
  "sorted_wrt (\<lambda>a b. f a \<ge> f b) (sorted_reverse f xs)"
proof -
  have "sorted (map f (sort_key f (rev xs)))" by (rule sorted_sort_key)
  then have "sorted_wrt (\<lambda>a b. f a \<le> f b) (sort_key f (rev xs))"
    by (simp add: sorted_map)
  then show ?thesis
    by (simp add: sorted_reverse_def sorted_wrt_rev)
qed

lemma set_sorted_reverse: "set (sorted_reverse f xs) = set xs"
  by (simp add: sorted_reverse_def)

section \<open>normalize_frequencies\<close>

lemma map_of_normalize:
  "map_of (normalize_frequencies f) sku =
     map_option (\<lambda>freq. if Max (set (map snd f)) = 0 then 0
                         else real_of_int freq / real_of_int (Max (set (map snd f))))
       (map_of f sku)"
  using map_of_map_snd[of "\<lambda>v. 0::real" f sku]
    map_of_map_snd[of "\<lambda>freq. real_of_int freq / real_of_int (Max (set (map snd f)))" f sku]
  by (cases "f = []") (simp_all add: normalize_frequencies_def Let_def split_def)

lemma normalize_range:
  assumes "\<forall>(sku, freq) \<in> set f. 0 \<le> freq" "(sku, v) \<in> set (normalize_frequencies f)"
  shows "0 \<le> v \<and> v \<le> 1"
proof -
  from assms(2) have ne: "f \<noteq> []" by (auto simp: normalize_frequencies_def)
  let ?m = "Max (set (map snd f))"
  show ?thesis
  proof (cases "?m = 0")
    case True
    with assms(2) ne show ?thesis by (auto simp: normalize_frequencies_def Let_def)
  next
    case False
    with assms(2) ne obtain freq where fr: "(sku, freq) \<in> set f"
      and v: "v = real_of_int freq / real_of_int ?m"
      by (auto simp: normalize_frequencies_def Let_def)
    from fr have "freq \<in> set (map snd f)" by force
    then have le: "freq \<le> ?m" by simp
    from fr assms(1) have nn: "0 \<le> freq" by auto
    with le False have "0 < ?m" by linarith
    with nn le v show ?thesis by simp
  qed
qed

text \<open>
  Claim C9. \<open>normalize_frequencies\<close> returns the empty mapping on the empty mapping; it
  keeps the skus of its input (in their order); when the maximum frequency is zero every
  sku is mapped to exactly \<open>0\<close>; otherwise every sku is mapped to its frequency divided by
  the maximum frequency; and when no input frequency is negative every value lies in
  \<open>[0, 1]\<close>. No case divides by zero: the only division is by a maximum known to be
  non-zero.
\<close>

theorem normalize_frequencies_spec:
  "normalize_frequencies [] = [] \<and>
   map fst (normalize_frequencies f) = map fst f \<and>
   (Max (set (map snd f)) = 0 \<longrightarrow>
      (\<forall>(sku, v) \<in> set (normalize_frequencies f). v = 0)) \<and>
   (f \<noteq> [] \<and> Max (set (map snd f)) \<noteq> 0 \<longrightarrow>
      (\<forall>sku. map_of (normalize_frequencies f) sku =
         map_option (\<lambda>freq. real_of_int freq / real_of_int (Max (set (map snd f))))
           (map_of f sku))) \<and>
   ((\<forall>(sku, freq) \<in> set f. 0 \<le> freq) \<longrightarrow>
      (\<forall>(sku, v) \<in> set (normalize_frequencies f). 0 \<le> v \<and> v \<le> 1))"
proof (intro conjI impI)
  show "normalize_frequencies [] = []" by (simp add: normalize_frequencies_def)
  show "map fst (normalize_frequencies f) = map fst f"
    by (simp add: normalize_frequencies_def Let_def split_def o_def)
  show "\<forall>(sku, v) \<in> set (normalize_frequencies f). v = 0" if "Max (set (map snd f)) = 0"
    using that by (auto simp: normalize_frequencies_def Let_def)
  show "\<forall>sku. map_of (normalize_frequencies f) sku =
         map_option (\<lambda>freq. real_of_int freq / real_of_int (Max (set (map snd f))))
           (map_of f sku)" if "f \<noteq> [] \<and> Max (set (map snd f)) \<noteq> 0"
    using that by (simp add: map_of_normalize)
  show "\<forall>(sku, v) \<in> set (normalize_frequencies f). 0 \<le> v \<and> v \<le> 1"
    if "\<forall>(sku, freq) \<in> set f. 0 \<le> freq"
    using normalize_range[OF that] by auto
qed

text \<open>
  The theorem at the spec's two examples: \<open>{a: 0}\<close>, whose maximum is zero, and the
  history \<open>{SKU-A: 5, SKU-B: 1}\<close> of the worked example.
\<close>

theorem normalize_frequencies_spec_witness:
  "normalize_frequencies [(''a'', 0)] = [(''a'', 0)] \<and>
   normalize_frequencies [(''SKU-A'', 5), (''SKU-B'', 1)] = [(''SKU-A'', 1), (''SKU-B'', 1 / 5)] \<and>
   map_of (normalize_frequencies [(''SKU-A'', 5), (''SKU-B'', 1)]) ''SKU-B'' = Some (1 / 5) \<and>
   list_all (\<lambda>(sku, v). 0 \<le> v \<and> v \<le> 1) (normalize_frequencies [(''SKU-A'', 5), (''SKU-B'', 1)])"
  using normalize_frequencies_spec[of "[(''SKU-A'', 5), (''SKU-B'', 1)]"]
    normalize_frequencies_spec[of "[(''a'', 0)]"]
  by (simp add: normalize_frequencies_def)

section \<open>calculate_hybrid_score: the combine step\<close>

lemma add_vector_eq:
  "add_vector (sku, vs) c = AList.update sku (vector_entry (map_of c sku) vs) c"
  by (simp add: add_vector_def vector_entry_def split: option.splits)

lemma vector_entry_twice:
  "vector_entry (Some (vector_entry ro s0)) s = vector_entry ro s"
  by (cases ro) (simp_all add: vector_entry_def)

lemma map_of_fold_add_historical:
  "map_of (fold (add_historical hm) nh acc) sku =
     (case map_of (rev nh) sku of
        Some nf \<Rightarrow>
          Some \<lparr>historical_score = nf * HISTORY_WEIGHT, vector_score = 0,
                historical_frequency = (case map_of hm sku of Some f \<Rightarrow> f | None \<Rightarrow> 0),
                vector_similarity = 0, final_score = nf * HISTORY_WEIGHT\<rparr>
      | None \<Rightarrow> map_of acc sku)"
proof (induction nh arbitrary: acc)
  case Nil
  then show ?case by simp
next
  case (Cons x nh)
  obtain k v where x: "x = (k, v)" by (cases x)
  have r: "map_of (rev (x # nh)) sku =
      (case map_of (rev nh) sku of Some y \<Rightarrow> Some y | None \<Rightarrow> if sku = k then Some v else None)"
    using map_of_snoc[of "rev nh" k v sku] by (simp add: x)
  have a: "map_of (add_historical hm x acc) sku =
      (if sku = k then
         Some \<lparr>historical_score = v * HISTORY_WEIGHT, vector_score = 0,
               historical_frequency = (case map_of hm sku of Some f \<Rightarrow> f | None \<Rightarrow> 0),
               vector_similarity = 0, final_score = v * HISTORY_WEIGHT\<rparr>
       else map_of acc sku)"
    by (simp add: x add_historical_def update_conv')
  have "map_of (fold (add_historical hm) (x # nh) acc) sku =
      map_of (fold (add_historical hm) nh (add_historical hm x acc)) sku" by simp
  also have "\<dots> = (case map_of (rev nh) sku of
        Some nf \<Rightarrow>
          Some \<lparr>historical_score = nf * HISTORY_WEIGHT, vector_score = 0,
                historical_frequency = (case map_of hm sku of Some f \<Rightarrow> f | None \<Rightarrow> 0),
                vector_similarity = 0, final_score = nf * HISTORY_WEIGHT\<rparr>
      | None \<Rightarrow> map_of (add_historical hm x acc) sku)"
    by (rule Cons.IH)
  finally show ?case
    unfolding r a by (simp split: option.splits)
qed

lemma map_of_fold_add_vector:
  "map_of (fold add_vector vr acc) sku =
     (case map_of (rev vr) sku of
        Some s \<Rightarrow> Some (vector_entry (map_of acc sku) s)
      | None \<Rightarrow> map_of acc sku)"
proof (induction vr arbitrary: acc)
  case Nil
  then show ?case by simp
next
  case (Cons x vr)
  obtain k v where x: "x = (k, v)" by (cases x)
  have r: "map_of (rev (x # vr)) sku =
      (case map_of (rev vr) sku of Some y \<Rightarrow> Some y | None \<Rightarrow> if sku = k then Some v else None)"
    using map_of_snoc[of "rev vr" k v sku] by (simp add: x)
  have a: "map_of (add_vector x acc) sku =
      (if sku = k then Some (vector_entry (map_of acc sku) v) else map_of acc sku)"
    by (simp add: x add_vector_eq update_conv')
  have "map_of (fold add_vector (x # vr) acc) sku =
      map_of (fold add_vector vr (add_vector x acc)) sku" by simp
  also have "\<dots> = (case map_of (rev vr) sku of
        Some s \<Rightarrow> Some (vector_entry (map_of (add_vector x acc) sku) s)
      | None \<Rightarrow> map_of (add_vector x acc) sku)"
    by (rule Cons.IH)
  finally show ?case
    unfolding r a by (simp add: vector_entry_twice split: option.splits)
qed

lemma distinct_fold_add_historical:
  "distinct (map fst acc) \<Longrightarrow> distinct (map fst (fold (add_historical hm) nh acc))"
  by (induction nh arbitrary: acc) (auto simp: add_historical_def distinct_update)

lemma distinct_fold_add_vector:
  "distinct (map fst acc) \<Longrightarrow> distinct (map fst (fold add_vector vr acc))"
proof (induction vr arbitrary: acc)
  case Nil
  then show ?case by simp
next
  case (Cons x vr)
  obtain k v where x: "x = (k, v)" by (cases x)
  from Cons.prems show ?case
    by (simp add: x add_vector_eq distinct_update Cons.IH)
qed

lemma distinct_combine_scores: "distinct (map fst (combine_scores hm nh vr))"
  unfolding combine_scores_def
  by (intro distinct_fold_add_vector distinct_fold_add_historical) simp

lemma map_of_combine_scores:
  "map_of (combine_scores hm nh vr) sku =
     (let h = (case map_of (rev nh) sku of
                 Some nf \<Rightarrow>
                   Some \<lparr>historical_score = nf * HISTORY_WEIGHT, vector_score = 0,
                         historical_frequency = (case map_of hm sku of Some f \<Rightarrow> f | None \<Rightarrow> 0),
                         vector_similarity = 0, final_score = nf * HISTORY_WEIGHT\<rparr>
               | None \<Rightarrow> None)
      in case map_of (rev vr) sku of
           Some s \<Rightarrow> Some (vector_entry h s)
         | None \<Rightarrow> h)"
  by (simp add: combine_scores_def map_of_fold_add_vector map_of_fold_add_historical Let_def
        split: option.splits)

lemma combine_scores_record:
  assumes dict: "distinct (map fst normalized_history)"
    and mem: "(sku, r) \<in> set (combine_scores historical_mappings normalized_history vector_results)"
  shows "historical_score r =
           (case map_of normalized_history sku of
              Some normalized_freq \<Rightarrow> normalized_freq * (7 / 10) | None \<Rightarrow> 0)"
    and "vector_score r =
           (case map_of (rev vector_results) sku of
              Some similarity \<Rightarrow> similarity * (3 / 10) | None \<Rightarrow> 0)"
    and "final_score r = historical_score r + vector_score r"
    and "sku \<in> fst ` set normalized_history \<union> fst ` set vector_results"
proof -
  have m: "map_of (combine_scores historical_mappings normalized_history vector_results) sku = Some r"
    using mem distinct_combine_scores by (simp add: map_of_eq_Some_iff)
  have rv: "map_of (rev normalized_history) = map_of normalized_history"
    using dict by (rule map_of_rev_distinct)
  show "historical_score r =
           (case map_of normalized_history sku of
              Some normalized_freq \<Rightarrow> normalized_freq * (7 / 10) | None \<Rightarrow> 0)"
    using m unfolding map_of_combine_scores rv
    by (auto simp: Let_def vector_entry_def HISTORY_WEIGHT_def split: option.splits)
  show "vector_score r =
           (case map_of (rev vector_results) sku of
              Some similarity \<Rightarrow> similarity * (3 / 10) | None \<Rightarrow> 0)"
    using m unfolding map_of_combine_scores rv
    by (auto simp: Let_def vector_entry_def VECTOR_WEIGHT_def split: option.splits)
  show "final_score r = historical_score r + vector_score r"
    using m unfolding map_of_combine_scores rv
    by (auto simp: Let_def vector_entry_def split: option.splits)
  show "sku \<in> fst ` set normalized_history \<union> fst ` set vector_results"
    using m unfolding map_of_combine_scores rv
    by (auto simp: Let_def split: option.splits dest!: map_of_SomeD intro: rev_image_eqI)
qed

lemma combine_scores_keys:
  "fst ` set (combine_scores hm nh vr) = fst ` set nh \<union> fst ` set vr"
proof -
  have "sku \<in> fst ` set (combine_scores hm nh vr) \<longleftrightarrow> sku \<in> fst ` set nh \<union> fst ` set vr"
    for sku
  proof -
    have "sku \<in> fst ` set (combine_scores hm nh vr) \<longleftrightarrow>
          map_of (combine_scores hm nh vr) sku \<noteq> None"
      by (simp add: map_of_eq_None_iff)
    also have "\<dots> \<longleftrightarrow> map_of (rev nh) sku \<noteq> None \<or> map_of (rev vr) sku \<noteq> None"
      by (simp add: map_of_combine_scores Let_def split: option.splits)
    also have "\<dots> \<longleftrightarrow> sku \<in> fst ` set nh \<union> fst ` set vr"
      by (simp add: map_of_eq_None_iff)
    finally show ?thesis .
  qed
  then show ?thesis by blast
qed

text \<open>
  Claim C1. In the combine step of \<open>calculate_hybrid_score\<close>, with
  \<open>normalized_history\<close> a dict (distinct skus), every record of \<open>combined_scores\<close> has
  \<open>historical_score = normalizedFreq * 0.7\<close> (\<open>0\<close> when the sku is not in the history),
  \<open>vector_score = similarity * 0.3\<close> for the last entry of the sku in \<open>vector_results\<close>
  (a repeated entry overwrites; \<open>0\<close> when the sku has no entry), and
  \<open>final_score = historical_score + vector_score\<close>; the skus with a record are those of
  either source. On the worked example (history \<open>{SKU-A: 5, SKU-B: 1}\<close>, normalized to
  \<open>{SKU-A: 1.0, SKU-B: 0.2}\<close>, vector results \<open>[(SKU-A, 0.9), (SKU-C, 0.5)]\<close>) the
  ranking is \<open>SKU-A = 0.97\<close>, \<open>SKU-C = 0.15\<close>, \<open>SKU-B = 0.14\<close>.
\<close>

theorem combine_scores_spec:
  "(distinct (map fst normalized_history) \<and>
    (sku, r) \<in> set (combine_scores historical_mappings normalized_history vector_results) \<longrightarrow>
      historical_score r =
        (case map_of normalized_history sku of
           Some normalized_freq \<Rightarrow> normalized_freq * (7 / 10) | None \<Rightarrow> 0) \<and>
      vector_score r =
        (case map_of (rev vector_results) sku of
           Some similarity \<Rightarrow> similarity * (3 / 10) | None \<Rightarrow> 0) \<and>
      final_score r = historical_score r + vector_score r) \<and>
   fst ` set (combine_scores historical_mappings normalized_history vector_results) =
     fst ` set normalized_history \<union> fst ` set vector_results \<and>
   normalize_frequencies [(''SKU-A'', 5), (''SKU-B'', 1)] = [(''SKU-A'', 1), (''SKU-B'', 2 / 10)] \<and>
   map (\<lambda>x. (fst x, fst (snd x)))
     (rank_scores 10
        (combine_scores [(''SKU-A'', 5), (''SKU-B'', 1)]
           (normalize_frequencies [(''SKU-A'', 5), (''SKU-B'', 1)])
           [(''SKU-A'', 9 / 10), (''SKU-C'', 5 / 10)])) =
     [(''SKU-A'', 97 / 100), (''SKU-C'', 15 / 100), (''SKU-B'', 14 / 100)]"
proof (intro conjI impI)
  assume a: "distinct (map fst normalized_history) \<and>
    (sku, r) \<in> set (combine_scores historical_mappings normalized_history vector_results)"
  then have d: "distinct (map fst normalized_history)"
    and m: "(sku, r) \<in> set (combine_scores historical_mappings normalized_history vector_results)"
    by simp_all
  show "historical_score r =
        (case map_of normalized_history sku of
           Some normalized_freq \<Rightarrow> normalized_freq * (7 / 10) | None \<Rightarrow> 0)"
    by (rule combine_scores_record(1)[OF d m])
  show "vector_score r =
        (case map_of (rev vector_results) sku of
           Some similarity \<Rightarrow> similarity * (3 / 10) | None \<Rightarrow> 0)"
    by (rule combine_scores_record(2)[OF d m])
  show "final_score r = historical_score r + vector_score r"
    by (rule combine_scores_record(3)[OF d m])
next
  show "fst ` set (combine_scores historical_mappings normalized_history vector_results) =
     fst ` set normalized_history \<union> fst ` set vector_results"
    by (rule combine_scores_keys)
next
  show "normalize_frequencies [(''SKU-A'', 5), (''SKU-B'', 1)] = [(''SKU-A'', 1), (''SKU-B'', 2 / 10)]"
    by code_simp
next
  show "map (\<lambda>x. (fst x, fst (snd x)))
     (rank_scores 10
        (combine_scores [(''SKU-A'', 5), (''SKU-B'', 1)]
           (normalize_frequencies [(''SKU-A'', 5), (''SKU-B'', 1)])
           [(''SKU-A'', 9 / 10), (''SKU-C'', 5 / 10)])) =
     [(''SKU-A'', 97 / 100), (''SKU-C'', 15 / 100), (''SKU-B'', 14 / 100)]"
    by code_simp
qed

text \<open>
  The theorem at a repeated vector entry: history \<open>{SKU-A: 1.0}\<close> and vector results
  \<open>[(SKU-A, 0.9), (SKU-A, 0.5)]\<close>. The record of \<open>SKU-A\<close> keeps its historical score
  \<open>0.7\<close> and carries the vector score of the last entry, \<open>0.15\<close>, not the sum.
\<close>

theorem combine_scores_spec_witness:
  "combine_scores [(''SKU-A'', 5)] [(''SKU-A'', 1)] [(''SKU-A'', 9 / 10), (''SKU-A'', 5 / 10)] =
     [(''SKU-A'', \<lparr>historical_score = 7 / 10, vector_score = 15 / 100, historical_frequency = 5,
                   vector_similarity = 5 / 10, final_score = 85 / 100\<rparr>)] \<and>
   distinct (map fst [(''SKU-A'', 1::real)]) \<and>
   historical_score \<lparr>historical_score = 7 / 10, vector_score = 15 / 100, historical_frequency = 5,
                   vector_similarity = 5 / 10, final_score = 85 / 100\<rparr> = 1 * (7 / 10) \<and>
   vector_score \<lparr>historical_score = 7 / 10, vector_score = 15 / 100, historical_frequency = 5,
                   vector_similarity = 5 / 10, final_score = 85 / 100\<rparr> = 5 / 10 * (3 / 10)"
proof -
  let ?r = "\<lparr>historical_score = 7 / 10, vector_score = 15 / 100, historical_frequency = 5,
             vector_similarity = 5 / 10, final_score = 85 / 100 :: real\<rparr>"
  let ?c = "combine_scores [(''SKU-A'', 5)] [(''SKU-A'', 1)]
              [(''SKU-A'', 9 / 10), (''SKU-A'', 5 / 10)]"
  have c: "?c = [(''SKU-A'', ?r)]"
    by code_simp
  have m: "distinct (map fst [(''SKU-A'', 1::real)]) \<and> (''SKU-A'', ?r) \<in> set ?c"
    unfolding c by simp
  have "historical_score ?r =
          (case map_of [(''SKU-A'', 1::real)] ''SKU-A'' of
             Some normalized_freq \<Rightarrow> normalized_freq * (7 / 10) | None \<Rightarrow> 0) \<and>
        vector_score ?r =
          (case map_of (rev [(''SKU-A'', 9 / 10), (''SKU-A'', 5 / 10 :: real)]) ''SKU-A'' of
             Some similarity \<Rightarrow> similarity * (3 / 10) | None \<Rightarrow> 0)"
    using combine_scores_spec[of "[(''SKU-A'', 1)]" "''SKU-A''" ?r
        "[(''SKU-A'', 5)]" "[(''SKU-A'', 9 / 10), (''SKU-A'', 5 / 10)]"] m
    by blast
  then have "historical_score ?r = 1 * (7 / 10) \<and> vector_score ?r = 5 / 10 * (3 / 10)"
    by simp
  with c m show ?thesis by blast
qed

section \<open>calculate_hybrid_score: ranking and ties\<close>

lemma set_first_seen: "set (first_seen xs) = set xs"
  by (induction xs) auto

lemma distinct_first_seen: "distinct (first_seen xs)"
  by (induction xs) (auto simp: set_first_seen)

lemma first_seen_distinct: "distinct xs \<Longrightarrow> first_seen xs = xs"
proof (induction xs)
  case Nil
  then show ?case by simp
next
  case (Cons x xs)
  then have "filter (\<lambda>y. y \<noteq> x) xs = xs" by (auto intro: filter_True)
  with Cons show ?case by simp
qed

lemma first_seen_append:
  "first_seen (xs @ ys) = first_seen xs @ filter (\<lambda>y. y \<notin> set xs) (first_seen ys)"
proof (induction xs)
  case Nil
  then show ?case by simp
next
  case (Cons x xs)
  have "filter (\<lambda>y. y \<noteq> x) (filter (\<lambda>y. y \<notin> set xs) (first_seen ys)) =
        filter (\<lambda>y. y \<notin> set (x # xs)) (first_seen ys)"
    by (auto intro: filter_cong)
  with Cons show ?case by simp
qed

text \<open>Assigning the keys of a list to a dict, one after the other.\<close>

lemma fold_insert_keys:
  "fold (\<lambda>k ks. if k \<in> set ks then ks else ks @ [k]) xs acc =
     acc @ filter (\<lambda>x. x \<notin> set acc) (first_seen xs)"
proof (induction xs arbitrary: acc)
  case Nil
  then show ?case by simp
next
  case (Cons x xs)
  show ?case
  proof (cases "x \<in> set acc")
    case True
    have "filter (\<lambda>y. y \<notin> set acc) (filter (\<lambda>y. y \<noteq> x) (first_seen xs)) =
          filter (\<lambda>y. y \<notin> set acc) (first_seen xs)"
      using True by (auto intro: filter_cong)
    with True Cons.IH[of acc] show ?thesis by simp
  next
    case False
    have "filter (\<lambda>y. y \<notin> set (acc @ [x])) (first_seen xs) =
          filter (\<lambda>y. y \<notin> set acc) (filter (\<lambda>y. y \<noteq> x) (first_seen xs))"
      by (auto intro: filter_cong)
    with False Cons.IH[of "acc @ [x]"] show ?thesis by simp
  qed
qed

lemma keys_update:
  "map fst (AList.update k v al) = (if k \<in> set (map fst al) then map fst al else map fst al @ [k])"
  by (induction al) auto

lemma keys_fold_add_historical:
  "map fst (fold (add_historical hm) nh acc) =
     fold (\<lambda>k ks. if k \<in> set ks then ks else ks @ [k]) (map fst nh) (map fst acc)"
proof (induction nh arbitrary: acc)
  case Nil
  then show ?case by simp
next
  case (Cons x nh)
  obtain k v where x: "x = (k, v)" by (cases x)
  have a: "map fst (add_historical hm x acc) =
      (if k \<in> set (map fst acc) then map fst acc else map fst acc @ [k])"
    by (simp add: x add_historical_def keys_update)
  have "map fst (fold (add_historical hm) (x # nh) acc) =
      map fst (fold (add_historical hm) nh (add_historical hm x acc))" by simp
  also have "\<dots> = fold (\<lambda>k ks. if k \<in> set ks then ks else ks @ [k]) (map fst nh)
      (map fst (add_historical hm x acc))"
    by (rule Cons.IH)
  finally show ?case unfolding a by (simp add: x)
qed

lemma keys_fold_add_vector:
  "map fst (fold add_vector vr acc) =
     fold (\<lambda>k ks. if k \<in> set ks then ks else ks @ [k]) (map fst vr) (map fst acc)"
proof (induction vr arbitrary: acc)
  case Nil
  then show ?case by simp
next
  case (Cons x vr)
  obtain k v where x: "x = (k, v)" by (cases x)
  have a: "map fst (add_vector x acc) =
      (if k \<in> set (map fst acc) then map fst acc else map fst acc @ [k])"
    by (simp add: x add_vector_eq keys_update)
  have "map fst (fold add_vector (x # vr) acc) =
      map fst (fold add_vector vr (add_vector x acc))" by simp
  also have "\<dots> = fold (\<lambda>k ks. if k \<in> set ks then ks else ks @ [k]) (map fst vr)
      (map fst (add_vector x acc))"
    by (rule Cons.IH)
  finally show ?case unfolding a by (simp add: x)
qed

lemma keys_combine_scores:
  "map fst (combine_scores hm nh vr) = first_seen (map fst nh @ map fst vr)"
proof -
  have "map fst (combine_scores hm nh vr) =
      first_seen (map fst nh) @
      filter (\<lambda>x. x \<notin> set (first_seen (map fst nh))) (first_seen (map fst vr))"
    by (simp add: combine_scores_def keys_fold_add_vector keys_fold_add_historical
          fold_insert_keys)
  then show ?thesis by (simp add: first_seen_append set_first_seen)
qed

lemma keys_filter_by_value:
  assumes "distinct (map fst c)"
  shows "map fst (filter (\<lambda>x. f (snd x) = s) c) =
         filter (\<lambda>k. map_option f (map_of c k) = Some s) (map fst c)"
  using assms
proof (induction c)
  case Nil
  then show ?case by simp
next
  case (Cons x c)
  obtain k v where x: "x = (k, v)" by (cases x)
  from Cons.prems have k: "k \<notin> fst ` set c" and d: "distinct (map fst c)" by (auto simp: x)
  have "filter (\<lambda>k'. map_option f (map_of ((k, v) # c) k') = Some s) (map fst c) =
        filter (\<lambda>k'. map_option f (map_of c k') = Some s) (map fst c)"
    using k by (intro filter_cong) auto
  with Cons.IH[OF d] show ?case by (simp add: x)
qed

text \<open>
  What \<open>calculate_hybrid_score\<close> returns is that ranking, of the history it looked up
  (normalized, which keeps the skus and their order) and the vector results it ended with.
\<close>

lemma keys_normalize_frequencies: "map fst (normalize_frequencies f) = map fst f"
  by (simp add: normalize_frequencies_def Let_def split_def o_def)

lemma calculate_hybrid_score_ranking:
  assumes "calculate_hybrid_score e req k qv vr = Inr res"
  shows "\<exists>hm vr'. get_all_historical_mappings e req = Inr hm \<and>
     res = rank_scores k (combine_scores hm (normalize_frequencies hm) vr') \<and>
     map fst (combine_scores hm (normalize_frequencies hm) vr') =
       first_seen (map fst hm @ map fst vr')"
proof -
  from assms obtain hm vr' where
    "get_all_historical_mappings e req = Inr hm"
    "res = rank_scores k (combine_scores hm (normalize_frequencies hm) vr')"
    by (auto simp: calculate_hybrid_score_def Let_def split: sum.splits)
  then show ?thesis
    using keys_combine_scores[of hm "normalize_frequencies hm" vr']
    by (auto simp: keys_normalize_frequencies)
qed

text \<open>
  Claim C4, as amended. \<open>combined_scores\<close> holds the skus in the order of their first
  assignment: those of \<open>normalized_history\<close> (a dict, so in the mapping's own order),
  then those met only in \<open>vector_results\<close>, in order of first appearance. For scores that
  are numbers (no \<open>nan\<close>), the ranking is in non-increasing order of \<open>final_score\<close>, and
  the skus of any one \<open>final_score\<close> stand in the ranking in that order of insertion: they
  are a prefix of the skus of that score taken in insertion order (a prefix, since the ranking
  ends after \<open>top_k\<close> entries). The code has no lexical tie-break.
\<close>

theorem rank_scores_ties:
  "map fst (combine_scores hm nh vr) = first_seen (map fst nh @ map fst vr) \<and>
   (distinct (map fst nh) \<longrightarrow>
      first_seen (map fst nh @ map fst vr) =
        map fst nh @ filter (\<lambda>sku. sku \<notin> fst ` set nh) (first_seen (map fst vr))) \<and>
   prefix
     (map fst (filter (\<lambda>x. fst (snd x) = s) (rank_scores top_k (combine_scores hm nh vr))))
     (filter (\<lambda>sku. map_option final_score (map_of (combine_scores hm nh vr) sku) = Some s)
        (first_seen (map fst nh @ map fst vr))) \<and>
   sorted_wrt (\<lambda>a b. fst (snd a) \<ge> fst (snd b)) (rank_scores top_k (combine_scores hm nh vr))"
proof (intro conjI impI)
  let ?c = "combine_scores hm nh vr"
  let ?key = "\<lambda>x::string \<times> score. final_score (snd x)"
  let ?srt = "sorted_reverse ?key ?c"
  let ?fmt = "\<lambda>(sku, metadata). (sku, final_score metadata, metadata)"
  show k: "map fst ?c = first_seen (map fst nh @ map fst vr)"
    by (rule keys_combine_scores)
  show "first_seen (map fst nh @ map fst vr) =
        map fst nh @ filter (\<lambda>sku. sku \<notin> fst ` set nh) (first_seen (map fst vr))"
    if "distinct (map fst nh)"
    using that by (simp add: first_seen_append first_seen_distinct)
  have e1: "map fst (filter (\<lambda>x. fst (snd x) = s) (map ?fmt ys)) =
        map fst (filter (\<lambda>x. ?key x = s) ys)" for ys :: "(string \<times> score) list"
    by (induction ys) auto
  have "prefix (filter (\<lambda>x. ?key x = s) (py_take top_k ?srt)) (filter (\<lambda>x. ?key x = s) ?srt)"
    by (intro filter_mono_prefix py_take_prefix)
  then have "prefix (filter (\<lambda>x. ?key x = s) (py_take top_k ?srt))
                    (filter (\<lambda>x. ?key x = s) ?c)"
    by (simp add: sorted_reverse_stable)
  then have "prefix (map fst (filter (\<lambda>x. ?key x = s) (py_take top_k ?srt)))
                    (map fst (filter (\<lambda>x. ?key x = s) ?c))"
    by (rule map_mono_prefix)
  then have p: "prefix (map fst (filter (\<lambda>x. fst (snd x) = s) (rank_scores top_k ?c)))
                    (map fst (filter (\<lambda>x. final_score (snd x) = s) ?c))"
    by (simp add: rank_scores_def e1)
  have "map fst (filter (\<lambda>x. final_score (snd x) = s) ?c) =
        filter (\<lambda>sku. map_option final_score (map_of ?c sku) = Some s) (map fst ?c)"
    by (rule keys_filter_by_value[OF distinct_combine_scores])
  with p k show "prefix
     (map fst (filter (\<lambda>x. fst (snd x) = s) (rank_scores top_k ?c)))
     (filter (\<lambda>sku. map_option final_score (map_of ?c sku) = Some s)
        (first_seen (map fst nh @ map fst vr)))"
    by simp
  have "sorted_wrt (\<lambda>a b. ?key a \<ge> ?key b) ?srt" by (rule sorted_reverse_descending)
  then have "sorted_wrt (\<lambda>a b. ?key a \<ge> ?key b) (py_take top_k ?srt)"
    by (rule sorted_wrt_py_take)
  then show "sorted_wrt (\<lambda>a b. fst (snd a) \<ge> fst (snd b)) (rank_scores top_k ?c)"
    by (simp add: rank_scores_def sorted_wrt_map split_def)
qed

text \<open>
  Vector results \<open>[(B, 0.5), (A, 0.5)]\<close> and no history: both skus score \<open>0.15\<close>, and
  the ranking returns \<open>B\<close> before \<open>A\<close>, against the lexical order. With the history
  \<open>{Z: 1, Y: 1}\<close> in front, \<open>Z\<close> and \<open>Y\<close> both score \<open>0.7\<close> and come in the
  mapping's order, \<open>Z\<close> first.
\<close>

theorem rank_scores_ties_counterexample:
  "map fst (rank_scores 10 (combine_scores [] [] [(''B'', 1 / 2), (''A'', 1 / 2)])) = [''B'', ''A''] \<and>
   map (fst \<circ> snd) (rank_scores 10 (combine_scores [] [] [(''B'', 1 / 2), (''A'', 1 / 2)])) =
     [15 / 100, 15 / 100] \<and>
   ''A'' < ''B'' \<and>
   map fst (rank_scores 10
     (combine_scores [(''Z'', 1), (''Y'', 1)] (normalize_frequencies [(''Z'', 1), (''Y'', 1)])
        [(''B'', 1 / 2), (''A'', 1 / 2)])) = [''Z'', ''Y'', ''B'', ''A''] \<and>
   map (fst \<circ> snd) (rank_scores 10
     (combine_scores [(''Z'', 1), (''Y'', 1)] (normalize_frequencies [(''Z'', 1), (''Y'', 1)])
        [(''B'', 1 / 2), (''A'', 1 / 2)])) = [7 / 10, 7 / 10, 15 / 100, 15 / 100] \<and>
   ''Y'' < ''Z''"
  by code_simp

text \<open>
  The theorem with history \<open>{Z: 1, Y: 1}\<close>, vector results
  \<open>[(B, 0.5), (A, 0.5), (B, 0.5)]\<close> and \<open>top_k = 3\<close>: the insertion order is
  \<open>Z, Y, B, A\<close>, the ranking is \<open>Z, Y, B\<close>.
\<close>

theorem rank_scores_ties_witness:
  "distinct (map fst [(''Z'', 1::real), (''Y'', 1)]) \<and>
   map fst (combine_scores [(''Z'', 1), (''Y'', 1)] [(''Z'', 1), (''Y'', 1)]
              [(''B'', 1 / 2), (''A'', 1 / 2), (''B'', 1 / 2)]) = [''Z'', ''Y'', ''B'', ''A''] \<and>
   map fst (rank_scores 3
     (combine_scores [(''Z'', 1), (''Y'', 1)] [(''Z'', 1), (''Y'', 1)]
        [(''B'', 1 / 2), (''A'', 1 / 2), (''B'', 1 / 2)])) = [''Z'', ''Y'', ''B''] \<and>
   prefix
     (map fst (filter (\<lambda>x. fst (snd x) = 15 / 100)
        (rank_scores 3
           (combine_scores [(''Z'', 1), (''Y'', 1)] [(''Z'', 1), (''Y'', 1)]
              [(''B'', 1 / 2), (''A'', 1 / 2), (''B'', 1 / 2)]))))
     [''B'', ''A'']"
proof -
  let ?nh = "[(''Z'', 1::real), (''Y'', 1)]"
  let ?vr = "[(''B'', 1 / 2 :: real), (''A'', 1 / 2), (''B'', 1 / 2)]"
  let ?c = "combine_scores [(''Z'', 1), (''Y'', 1)] ?nh ?vr"
  have d: "distinct (map fst ?nh)" by simp
  have o: "first_seen (map fst ?nh @ map fst ?vr) = [''Z'', ''Y'', ''B'', ''A'']"
    by code_simp
  have f: "filter (\<lambda>sku. map_option final_score (map_of ?c sku) = Some (15 / 100))
             [''Z'', ''Y'', ''B'', ''A''] = [''B'', ''A'']"
    by code_simp
  have r: "map fst (rank_scores 3 ?c) = [''Z'', ''Y'', ''B'']"
    by code_simp
  note t = rank_scores_ties[of "[(''Z'', 1), (''Y'', 1)]" ?nh ?vr "15 / 100" 3]
  from t have "map fst ?c = [''Z'', ''Y'', ''B'', ''A'']" unfolding o by blast
  moreover from t have "prefix
     (map fst (filter (\<lambda>x. fst (snd x) = 15 / 100) (rank_scores 3 ?c))) [''B'', ''A'']"
    unfolding o f by blast
  ultimately show ?thesis using d r by blast
qed

section \<open>search_vectors: order of the results\<close>

lemma upt2: "[0..<2] = [0, 1]"
  by (simp add: upt_rec)

lemma argsort_ok_distinct: "argsort_ok srt \<Longrightarrow> distinct (srt a)"
  by (simp add: argsort_ok_def)

lemma argsort_ok_set: "argsort_ok srt \<Longrightarrow> set (srt a) = {0..<length a}"
  by (simp add: argsort_ok_def)

lemma argsort_ok_sorted:
  "argsort_ok srt \<Longrightarrow> sorted_wrt (\<lambda>i j. np_rank (a ! i) \<le> np_rank (a ! j)) (srt a)"
  by (simp add: argsort_ok_def sorted_map)

lemma argsort_ok_length:
  assumes "argsort_ok srt"
  shows "length (srt a) = length a"
proof -
  have "length (srt a) = card (set (srt a))"
    using argsort_ok_distinct[OF assms] by (simp add: distinct_card)
  then show ?thesis by (simp add: argsort_ok_set[OF assms])
qed

lemma argsort_ties_ascending_ok: "argsort_ok argsort_ties_ascending"
  by (simp add: argsort_ok_def argsort_ties_ascending_def)

lemma argsort_ties_descending_ok: "argsort_ok argsort_ties_descending"
  by (simp add: argsort_ok_def argsort_ties_descending_def)

lemma sorted_rev_argsort:
  assumes "argsort_ok srt"
  shows "sorted_wrt (\<lambda>i j. np_rank (a ! j) \<le> np_rank (a ! i)) (rev (srt a))"
  using argsort_ok_sorted[OF assms, of a] by (simp add: sorted_wrt_rev)

lemma sorted_top_indices:
  assumes "argsort_ok srt"
  shows "sorted_wrt (\<lambda>i j. np_rank (a ! j) \<le> np_rank (a ! i)) (top_indices srt k a)"
  unfolding top_indices_def by (rule sorted_wrt_py_take) (rule sorted_rev_argsort[OF assms])

lemma set_top_indices:
  assumes "argsort_ok srt"
  shows "set (top_indices srt k a) \<subseteq> {0..<length a}"
  using set_py_take[of k "rev (srt a)"] by (simp add: top_indices_def argsort_ok_set[OF assms])

lemma distinct_top_indices:
  assumes "argsort_ok srt"
  shows "distinct (top_indices srt k a)"
  by (simp add: top_indices_def py_take_def argsort_ok_distinct[OF assms])

lemma length_top_indices:
  assumes "argsort_ok srt" and "0 \<le> k"
  shows "length (top_indices srt k a) = min (nat k) (length a)"
  using assms(2) by (simp add: top_indices_def length_py_take argsort_ok_length[OF assms(1)])

lemma py_take_split: "\<exists>n. py_take k xs = take n xs"
  by (auto simp: py_take_def)

lemma top_indices_dominate:
  assumes "argsort_ok srt"
    and "i \<in> set (top_indices srt k a)" and "j < length a" and "j \<notin> set (top_indices srt k a)"
  shows "np_rank (a ! j) \<le> np_rank (a ! i)"
proof -
  let ?ys = "rev (srt a)"
  obtain n where n: "top_indices srt k a = take n ?ys"
    using py_take_split[of k ?ys] by (auto simp: top_indices_def)
  have "j \<in> set ?ys" using assms(3) by (simp add: argsort_ok_set[OF assms(1)])
  then have "j \<in> set (take n ?ys) \<union> set (drop n ?ys)"
    by (metis append_take_drop_id set_append)
  with assms(4) n have j: "j \<in> set (drop n ?ys)" by simp
  have "sorted_wrt (\<lambda>i j. np_rank (a ! j) \<le> np_rank (a ! i)) (take n ?ys @ drop n ?ys)"
    using sorted_rev_argsort[OF assms(1), of a] by simp
  then have "\<forall>x\<in>set (take n ?ys). \<forall>y\<in>set (drop n ?ys). np_rank (a ! y) \<le> np_rank (a ! x)"
    unfolding sorted_wrt_append by blast
  with assms(2) n j show ?thesis by force
qed

lemma collect_results_ok:
  assumes "\<forall>i\<in>set idxs. i < length s"
  shows "collect_results (Some s) sims idxs = Inr (map (\<lambda>i. (s ! i, sims ! i)) idxs)"
  using assms by (induction idxs) simp_all

lemma similarities_single_ok:
  assumes "list_all (\<lambda>row. length row = length q) m"
  shows "\<exists>sims. similarities_single m q = Inr sims \<and> length sims = length m"
  using assms by (simp add: similarities_single_def np_dot_mv_def)

text \<open>
  Claim C2, as amended. For every \<open>np.argsort\<close> that keeps numpy's contract, on a loaded
  snapshot whose rows have the query's dimension and whose sku list is as long as the
  matrix, \<open>search_vectors\<close> returns the pairs \<open>(sku, similarity)\<close> of the rows
  \<open>top_indices\<close>: for \<open>top_k \<ge> 0\<close> these are \<open>min top_k n\<close> distinct rows, so at most
  \<open>top_k\<close>; they come in non-increasing order of similarity, taken in numpy's sort order
  \<open>np_rank\<close>, in which \<open>nan\<close> ranks above every number (a row whose similarity is
  \<open>nan\<close> comes first); and no row left out ranks above a row returned. The order is not
  strict, and nothing is said of the order among rows of exactly equal similarity: the code
  has no tie-break, and \<open>np.argsort\<close> with the default kind promises none.
\<close>

theorem search_vectors_order:
  assumes "argsort_ok np_argsort"
    and "vectors_cache st = Some m" and "item_skus st = Some skus"
    and "length skus = length m" and "list_all (\<lambda>row. length row = length q) m"
  shows "\<exists>sims. similarities_single m q = Inr sims \<and> length sims = length m \<and>
     search_vectors np_argsort st q k =
       Inr (map (\<lambda>i. (skus ! i, sims ! i)) (top_indices np_argsort k sims)) \<and>
     (0 \<le> k \<longrightarrow> length (top_indices np_argsort k sims) = min (nat k) (length m)) \<and>
     distinct (top_indices np_argsort k sims) \<and>
     set (top_indices np_argsort k sims) \<subseteq> {0..<length m} \<and>
     sorted_wrt (\<lambda>i j. np_rank (sims ! j) \<le> np_rank (sims ! i)) (top_indices np_argsort k sims) \<and>
     (\<forall>i\<in>set (top_indices np_argsort k sims). \<forall>j<length m.
        j \<notin> set (top_indices np_argsort k sims) \<longrightarrow> np_rank (sims ! j) \<le> np_rank (sims ! i))"
proof -
  note ok = assms(1)
  obtain sims where s: "similarities_single m q = Inr sims" and l: "length sims = length m"
    using similarities_single_ok[OF assms(5)] by blast
  let ?top = "top_indices np_argsort k sims"
  have sub: "set ?top \<subseteq> {0..<length m}"
    using set_top_indices[OF ok, of k sims] l by simp
  then have "\<forall>i\<in>set ?top. i < length skus"
    using assms(4) by auto
  then have c: "collect_results (Some skus) sims ?top = Inr (map (\<lambda>i. (skus ! i, sims ! i)) ?top)"
    by (rule collect_results_ok)
  have r: "search_vectors np_argsort st q k = Inr (map (\<lambda>i. (skus ! i, sims ! i)) ?top)"
    by (simp add: search_vectors_def assms(2,3) s c)
  have len: "0 \<le> k \<longrightarrow> length ?top = min (nat k) (length m)"
    using length_top_indices[OF ok, of k sims] l by simp
  have dom: "\<forall>i\<in>set ?top. \<forall>j<length m. j \<notin> set ?top \<longrightarrow>
        np_rank (sims ! j) \<le> np_rank (sims ! i)"
    using top_indices_dominate[OF ok, of _ k sims] l by simp
  from s l r len sub dom distinct_top_indices[OF ok, of k sims] sorted_top_indices[OF ok, of sims k]
  show ?thesis by blast
qed

text \<open>
  The theorem on the snapshot \<open>A = [0, 1]\<close>, \<open>B = [1, 0]\<close> with query \<open>[1, 0]\<close> and
  \<open>top_k = 1\<close>: the one result is \<open>B\<close> with similarity \<open>1\<close>.
\<close>

theorem search_vectors_order_witness:
  "argsort_ok argsort_ties_ascending \<and>
   search_vectors argsort_ties_ascending
     \<lparr>vectors_cache = Some [[0, 1], [1, 0]], item_skus = Some [''A'', ''B''],
      item_names = Some [''a'', ''b''], item_sku_to_index = Some [(''A'', 0), (''B'', 1)]\<rparr>
     [1, 0] 1 = Inr [(''B'', Fin 1)] \<and>
   similarities_single [[0, 1], [1, 0]] [1, 0] = Inr [Fin 0, Fin 1] \<and>
   top_indices argsort_ties_ascending 1 [Fin 0, Fin 1] = [1]"
proof -
  let ?st = "\<lparr>vectors_cache = Some [[0, 1], [1, 0]], item_skus = Some [''A'', ''B''],
      item_names = Some [''a'', ''b''], item_sku_to_index = Some [(''A'', 0), (''B'', 1)]\<rparr>"
  have s: "similarities_single [[0, 1], [1, 0]] [1, 0] = Inr [Fin 0, Fin 1]"
    by (simp add: similarities_single_def np_dot_mv_def dot_def linalg_norm_def np_divide_def)
  have t: "top_indices argsort_ties_ascending 1 [Fin 0, Fin 1] = [1]"
    by (simp add: top_indices_def argsort_ties_ascending_def py_take_def upt2)
  have "\<exists>sims. similarities_single [[0, 1], [1, 0]] [1, 0] = Inr sims \<and>
      search_vectors argsort_ties_ascending ?st [1, 0] 1 =
        Inr (map (\<lambda>i. ([''A'', ''B''] ! i, sims ! i)) (top_indices argsort_ties_ascending 1 sims))"
    using search_vectors_order[OF argsort_ties_ascending_ok,
        of ?st "[[0, 1], [1, 0]]" "[''A'', ''B'']" "[1, 0]" 1]
    by auto
  then have "search_vectors argsort_ties_ascending ?st [1, 0] 1 = Inr [(''B'', Fin 1)]"
    by (auto simp: s t)
  with s t argsort_ties_ascending_ok show ?thesis by blast
qed

text \<open>
  Two identical rows \<open>A\<close> (row 0) and \<open>B\<close> (row 1), query \<open>[1, 0]\<close>: both similarities
  are \<open>1\<close>. On two equal values an argsort can only answer \<open>[0, 1]\<close> or \<open>[1, 0]\<close>;
  the result is \<open>B, A\<close> in the first case and \<open>A, B\<close> in the second, and in neither
  is it strictly descending. With \<open>top_k = -1\<close> the slice drops the last index only, and
  one pair is returned, more than \<open>top_k\<close>.
\<close>

theorem search_vectors_order_counterexample:
  "search_vectors argsort_ties_ascending
     \<lparr>vectors_cache = Some [[1, 0], [1, 0]], item_skus = Some [''A'', ''B''],
      item_names = Some [''a'', ''b''], item_sku_to_index = Some [(''A'', 0), (''B'', 1)]\<rparr>
     [1, 0] 2 = Inr [(''B'', Fin 1), (''A'', Fin 1)] \<and>
   search_vectors argsort_ties_descending
     \<lparr>vectors_cache = Some [[1, 0], [1, 0]], item_skus = Some [''A'', ''B''],
      item_names = Some [''a'', ''b''], item_sku_to_index = Some [(''A'', 0), (''B'', 1)]\<rparr>
     [1, 0] 2 = Inr [(''A'', Fin 1), (''B'', Fin 1)] \<and>
   search_vectors argsort_ties_ascending
     \<lparr>vectors_cache = Some [[1, 0], [1, 0]], item_skus = Some [''A'', ''B''],
      item_names = Some [''a'', ''b''], item_sku_to_index = Some [(''A'', 0), (''B'', 1)]\<rparr>
     [1, 0] (- 1) = Inr [(''B'', Fin 1)] \<and>
   search_vectors argsort_ties_descending
     \<lparr>vectors_cache = Some [[1, 0], [1, 0]], item_skus = Some [''A'', ''B''],
      item_names = Some [''a'', ''b''], item_sku_to_index = Some [(''A'', 0), (''B'', 1)]\<rparr>
     [1, 0] (- 1) = Inr [(''A'', Fin 1)]"
  by (simp add: search_vectors_def similarities_single_def np_dot_mv_def dot_def linalg_norm_def
       np_divide_def top_indices_def argsort_ties_ascending_def argsort_ties_descending_def
       py_take_def upt2)

text \<open>Whatever the argsort, the two similarities returned on that snapshot are equal.\<close>

lemma search_vectors_ties_not_strict:
  assumes "argsort_ok np_argsort"
  shows "\<exists>r. search_vectors np_argsort
     \<lparr>vectors_cache = Some [[1, 0], [1, 0]], item_skus = Some [''A'', ''B''],
      item_names = Some [''a'', ''b''], item_sku_to_index = Some [(''A'', 0), (''B'', 1)]\<rparr>
     [1, 0] 2 = Inr r \<and> map snd r = [Fin 1, Fin 1]"
proof -
  let ?st = "\<lparr>vectors_cache = Some [[1, 0], [1, 0]], item_skus = Some [''A'', ''B''],
      item_names = Some [''a'', ''b''], item_sku_to_index = Some [(''A'', 0), (''B'', 1)]\<rparr>"
  let ?sims = "[Fin 1, Fin 1]"
  let ?top = "top_indices np_argsort 2 ?sims"
  have s: "similarities_single [[1, 0], [1, 0]] [1, 0] = Inr ?sims"
    by (simp add: similarities_single_def np_dot_mv_def dot_def linalg_norm_def np_divide_def)
  have "\<exists>sims. similarities_single [[1, 0], [1, 0]] [1, 0] = Inr sims \<and>
      search_vectors np_argsort ?st [1, 0] 2 =
        Inr (map (\<lambda>i. ([''A'', ''B''] ! i, sims ! i)) (top_indices np_argsort 2 sims))"
    using search_vectors_order[OF assms, of ?st "[[1, 0], [1, 0]]" "[''A'', ''B'']" "[1, 0]" 2]
    by auto
  then have r: "search_vectors np_argsort ?st [1, 0] 2 =
      Inr (map (\<lambda>i. ([''A'', ''B''] ! i, ?sims ! i)) ?top)"
    by (auto simp: s)
  have len: "length ?top = 2" using length_top_indices[OF assms, of 2 ?sims] by simp
  have sub: "\<forall>i\<in>set ?top. i < 2" using set_top_indices[OF assms, of 2 ?sims] by auto
  have "\<forall>i\<in>set ?top. ?sims ! i = Fin 1"
    using sub by (auto simp: less_2_cases_iff)
  then have "map (\<lambda>i. ?sims ! i) ?top = replicate (length ?top) (Fin 1)"
    by (simp add: map_replicate_const[symmetric] cong: map_cong)
  then have "map snd (map (\<lambda>i. ([''A'', ''B''] ! i, ?sims ! i)) ?top) = [Fin 1, Fin 1]"
    by (simp add: len o_def numeral_2_eq_2)
  then show ?thesis unfolding r by (intro exI conjI) (rule refl)
qed

section \<open>Zero vectors, the batch search and the load guard\<close>

lemma argsort_singleton:
  assumes "argsort_ok srt"
  shows "srt [x] = [0]"
proof -
  have l: "length (srt [x]) = 1" using argsort_ok_length[OF assms, of "[x]"] by simp
  then obtain y where y: "srt [x] = [y]" by (cases "srt [x]") auto
  have "set (srt [x]) = {0}" using argsort_ok_set[OF assms, of "[x]"] by simp
  with y show ?thesis by simp
qed

lemma two_indices:
  assumes "length zs = 2" and "distinct zs" and "set zs = {0..<2::nat}"
  shows "zs = [0, 1] \<or> zs = [1, 0]"
proof -
  from assms(1) obtain x y where xy: "zs = [x, y]"
    by (cases zs) (auto simp: length_Suc_conv)
  from assms(3) xy have "x < 2" "y < 2" by auto
  then have "(x = 0 \<or> x = 1) \<and> (y = 0 \<or> y = 1)" by arith
  moreover from assms(2) xy have "x \<noteq> y" by simp
  ultimately have "(x = 0 \<and> y = 1) \<or> (x = 1 \<and> y = 0)" by arith
  with xy show ?thesis by simp
qed

lemma argsort_pair_cases:
  assumes "argsort_ok srt"
  shows "srt [a, b] = [0, 1] \<or> srt [a, b] = [1, 0]"
proof (rule two_indices)
  show "length (srt [a, b]) = 2" using argsort_ok_length[OF assms, of "[a, b]"] by simp
  show "distinct (srt [a, b])" by (rule argsort_ok_distinct[OF assms])
  have "length [a, b] = 2" by simp
  then show "set (srt [a, b]) = {0..<2}" by (simp only: argsort_ok_set[OF assms])
qed

lemma argsort_pair_less:
  assumes "argsort_ok srt" and "np_rank a < np_rank b"
  shows "srt [a, b] = [0, 1]"
proof -
  have "srt [a, b] \<noteq> [1, 0]"
  proof
    assume e: "srt [a, b] = [1, 0]"
    have "sorted_wrt (\<lambda>i j. np_rank ([a, b] ! i) \<le> np_rank ([a, b] ! j)) (srt [a, b])"
      by (rule argsort_ok_sorted[OF assms(1)])
    then have "np_rank b \<le> np_rank a" unfolding e by simp
    with assms(2) show False by simp
  qed
  with argsort_pair_cases[OF assms(1), of a b] show ?thesis by blast
qed

lemma argsort_pair_greater:
  assumes "argsort_ok srt" and "np_rank b < np_rank a"
  shows "srt [a, b] = [1, 0]"
proof -
  have "srt [a, b] \<noteq> [0, 1]"
  proof
    assume e: "srt [a, b] = [0, 1]"
    have "sorted_wrt (\<lambda>i j. np_rank ([a, b] ! i) \<le> np_rank ([a, b] ! j)) (srt [a, b])"
      by (rule argsort_ok_sorted[OF assms(1)])
    then have "np_rank a \<le> np_rank b" unfolding e by simp
    with assms(2) show False by simp
  qed
  with argsort_pair_cases[OF assms(1), of a b] show ?thesis by blast
qed

lemma linalg_norm_replicate_zero: "linalg_norm (replicate n 0) = 0"
proof -
  have "sum_list (map (\<lambda>x. x * x) (replicate n (0::real))) = 0"
    by (induction n) simp_all
  then show ?thesis by (simp add: linalg_norm_def)
qed

lemma cosine_similarity_zero_vector:
  "cosine_similarity v (replicate (length v) 0) = Inr (Fin 0) \<and>
   cosine_similarity (replicate (length v) 0) v = Inr (Fin 0)"
  by (simp add: cosine_similarity_def linalg_norm_replicate_zero Let_def)

text \<open>The guard itself: while \<open>_vectors_cache\<close> is \<open>None\<close>, all three raise \<open>RuntimeError\<close>.\<close>

lemma not_loaded_raises:
  assumes "vectors_cache st = None"
  shows "get_vectors st = Inl RuntimeError"
    and "search_vectors np_argsort st q k = Inl RuntimeError"
    and "search_vectors_batch np_argsort st qs k = Inl RuntimeError"
  using assms by (simp_all add: get_vectors_def search_vectors_def search_vectors_batch_def)

text \<open>
  Claim C5 at its failing inputs. \<open>cosine_similarity\<close> returns \<open>0.0\<close> when either
  operand is the zero vector, but \<open>search_vectors\<close> divides by the product of the norms
  without a guard: with a zero query vector, or with a zero row in the snapshot, the division
  is \<open>0 / 0\<close> and the similarity returned is \<open>nan\<close>, whatever the argsort.
\<close>

theorem search_vectors_zero_norm:
  assumes "argsort_ok np_argsort"
  shows "search_vectors np_argsort
     \<lparr>vectors_cache = Some [[1, 0]], item_skus = Some [''A''],
      item_names = Some [''a''], item_sku_to_index = Some [(''A'', 0)]\<rparr>
     [0, 0] 1 = Inr [(''A'', NaN)] \<and>
   search_vectors np_argsort
     \<lparr>vectors_cache = Some [[0, 0]], item_skus = Some [''A''],
      item_names = Some [''a''], item_sku_to_index = Some [(''A'', 0)]\<rparr>
     [1, 0] 1 = Inr [(''A'', NaN)] \<and>
   cosine_similarity [1, 0] [0, 0] = Inr (Fin 0) \<and>
   cosine_similarity [0, 0] [1, 0] = Inr (Fin 0)"
  by (simp add: search_vectors_def similarities_single_def np_dot_mv_def dot_def linalg_norm_def
       np_divide_def top_indices_def argsort_singleton[OF assms] py_take_def
       cosine_similarity_def)

text \<open>The same with an argsort at hand.\<close>

theorem search_vectors_zero_norm_witness:
  "search_vectors argsort_ties_ascending
     \<lparr>vectors_cache = Some [[1, 0]], item_skus = Some [''A''],
      item_names = Some [''a''], item_sku_to_index = Some [(''A'', 0)]\<rparr>
     [0, 0] 1 = Inr [(''A'', NaN)] \<and>
   search_vectors argsort_ties_ascending
     \<lparr>vectors_cache = Some [[0, 0]], item_skus = Some [''A''],
      item_names = Some [''a''], item_sku_to_index = Some [(''A'', 0)]\<rparr>
     [1, 0] 1 = Inr [(''A'', NaN)] \<and>
   cosine_similarity [1, 0] [0, 0] = Inr (Fin 0) \<and>
   cosine_similarity [0, 0] [1, 0] = Inr (Fin 0)"
  by (rule search_vectors_zero_norm[OF argsort_ties_ascending_ok])

lemma dot_commute: "dot u v = dot v u"
proof -
  have "sum_list (map2 (*) u v) = sum_list (map2 (*) v u)" for u v :: "real list"
  proof (induction u arbitrary: v)
    case Nil
    then show ?case by simp
  next
    case (Cons a u)
    then show ?case by (cases v) (simp_all add: mult.commute)
  qed
  then show ?thesis by (simp add: dot_def)
qed

lemma map2_same: "map2 f (map g m) (map h m) = map (\<lambda>x. f (g x) (h x)) m"
  by (induction m) simp_all

lemma collect_batch_nth:
  "collect_batch srt skus k simss = Inr rs \<Longrightarrow>
     length rs = length simss \<and>
     (\<forall>i<length simss. collect_results skus (simss ! i) (top_indices srt k (simss ! i)) = Inr (rs ! i))"
proof (induction simss arbitrary: rs)
  case Nil
  then show ?case by simp
next
  case (Cons sims simss)
  from Cons.prems obtain r rs' where
    r: "collect_results skus sims (top_indices srt k sims) = Inr r" and
    rs': "collect_batch srt skus k simss = Inr rs'" and rs: "rs = r # rs'"
    by (auto split: sum.splits)
  from Cons.IH[OF rs'] r rs show ?case
    by (auto simp: nth_Cons split: nat.splits)
qed

lemma similarities_batch_nth:
  assumes "similarities_batch m qs = Inr simss" and "i < length qs"
    and "\<forall>row\<in>set m. linalg_norm row \<noteq> 0" and "linalg_norm (qs ! i) \<noteq> 0"
  shows "similarities_single m (qs ! i) = Inr (simss ! i)"
proof -
  from assms(1) have dims: "list_all (\<lambda>q. list_all (\<lambda>row. length row = length q) m) qs"
    and simss: "simss = map2 (\<lambda>drow qn. map2 (\<lambda>d cn. np_divide d (qn * cn)) drow
                  (map (\<lambda>row. fix_norm (linalg_norm row)) m))
               (map (\<lambda>q. map (\<lambda>row. dot q row) m) qs)
               (map (\<lambda>q. fix_norm (linalg_norm q)) qs)"
    by (auto simp: similarities_batch_def np_dot_mm_def Let_def split: if_splits)
  let ?q = "qs ! i"
  have d: "list_all (\<lambda>row. length row = length ?q) m"
    using dims assms(2) by (simp add: list_all_length)
  have "simss ! i = map2 (\<lambda>d cn. np_divide d (fix_norm (linalg_norm ?q) * cn))
                      (map (\<lambda>row. dot ?q row) m) (map (\<lambda>row. fix_norm (linalg_norm row)) m)"
    using assms(2) by (simp add: simss map2_same)
  also have "\<dots> = map (\<lambda>row. np_divide (dot ?q row)
                        (fix_norm (linalg_norm ?q) * fix_norm (linalg_norm row))) m"
    by (rule map2_same)
  also have "\<dots> = map (\<lambda>row. np_divide (dot row ?q) (linalg_norm row * linalg_norm ?q)) m"
    using assms(3,4) by (auto simp: fix_norm_def dot_commute mult.commute)
  also have "\<dots> = map2 np_divide (map (\<lambda>row. dot row ?q) m)
                      (map (\<lambda>row. linalg_norm row * linalg_norm ?q) m)"
    by (rule map2_same[symmetric])
  finally show ?thesis
    using d by (simp add: similarities_single_def np_dot_mv_def)
qed

text \<open>
  Where no norm is zero the two searches agree: whenever the batch search returns, its
  \<open>i\<close>-th list is what the single search returns for the \<open>i\<close>-th query.
\<close>

lemma search_vectors_batch_agrees:
  assumes "vectors_cache st = Some m"
    and "\<forall>row\<in>set m. linalg_norm row \<noteq> 0"
    and "i < length qs" and "linalg_norm (qs ! i) \<noteq> 0"
    and "search_vectors_batch srt st qs k = Inr rs"
  shows "i < length rs \<and> search_vectors srt st (qs ! i) k = Inr (rs ! i)"
proof -
  from assms(3) have ne: "qs \<noteq> []" by auto
  with assms(1,5) obtain simss where
    s: "similarities_batch m qs = Inr simss" and
    c: "collect_batch srt (item_skus st) k simss = Inr rs"
    by (auto simp: search_vectors_batch_def split: sum.splits)
  from s have l: "length simss = length qs"
    by (auto simp: similarities_batch_def np_dot_mm_def Let_def split: if_splits)
  from collect_batch_nth[OF c] l assms(3) have
    "length rs = length qs" and
    r: "collect_results (item_skus st) (simss ! i) (top_indices srt k (simss ! i)) = Inr (rs ! i)"
    by auto
  moreover have "similarities_single m (qs ! i) = Inr (simss ! i)"
    by (rule similarities_batch_nth[OF s assms(3,2,4)])
  ultimately show ?thesis
    using assms(1,3) by (simp add: search_vectors_def)
qed

text \<open>
  Claim C3 at its failing inputs. On the snapshot \<open>A = [1, 0]\<close>, \<open>B = [0, 0]\<close>, whatever
  the argsort: for the query \<open>[1, 0]\<close> the single search ranks the zero row \<open>B\<close> first
  with \<open>nan\<close>, the batch search ranks it last with \<open>0.0\<close>; for the zero query
  \<open>search_vectors\<close> returns two \<open>nan\<close> similarities where \<open>search_vectors_batch\<close>
  returns two \<open>0.0\<close>.
\<close>

theorem search_vectors_batch_differs:
  assumes "argsort_ok np_argsort"
  shows "search_vectors np_argsort
     \<lparr>vectors_cache = Some [[1, 0], [0, 0]], item_skus = Some [''A'', ''B''],
      item_names = Some [''a'', ''b''], item_sku_to_index = Some [(''A'', 0), (''B'', 1)]\<rparr>
     [1, 0] 2 = Inr [(''B'', NaN), (''A'', Fin 1)] \<and>
   search_vectors_batch np_argsort
     \<lparr>vectors_cache = Some [[1, 0], [0, 0]], item_skus = Some [''A'', ''B''],
      item_names = Some [''a'', ''b''], item_sku_to_index = Some [(''A'', 0), (''B'', 1)]\<rparr>
     [[1, 0]] 2 = Inr [[(''A'', Fin 1), (''B'', Fin 0)]] \<and>
   (\<exists>r. search_vectors np_argsort
     \<lparr>vectors_cache = Some [[1, 0], [0, 0]], item_skus = Some [''A'', ''B''],
      item_names = Some [''a'', ''b''], item_sku_to_index = Some [(''A'', 0), (''B'', 1)]\<rparr>
     [0, 0] 2 = Inr r \<and> map snd r = [NaN, NaN]) \<and>
   (\<exists>r. search_vectors_batch np_argsort
     \<lparr>vectors_cache = Some [[1, 0], [0, 0]], item_skus = Some [''A'', ''B''],
      item_names = Some [''a'', ''b''], item_sku_to_index = Some [(''A'', 0), (''B'', 1)]\<rparr>
     [[0, 0]] 2 = Inr [r] \<and> map snd r = [Fin 0, Fin 0])"
proof (intro conjI)
  let ?st = "\<lparr>vectors_cache = Some [[1, 0], [0, 0]], item_skus = Some [''A'', ''B''],
      item_names = Some [''a'', ''b''], item_sku_to_index = Some [(''A'', 0), (''B'', 1)]\<rparr>"
  have a: "np_argsort [Fin 1, NaN] = [0, 1]"
    by (rule argsort_pair_less[OF assms]) simp
  have b: "np_argsort [Fin 1, Fin 0] = [1, 0]"
    by (rule argsort_pair_greater[OF assms]) simp
  show "search_vectors np_argsort ?st [1, 0] 2 = Inr [(''B'', NaN), (''A'', Fin 1)]"
    by (simp add: search_vectors_def similarities_single_def np_dot_mv_def
       dot_def linalg_norm_def np_divide_def top_indices_def py_take_def a)
  show "search_vectors_batch np_argsort ?st [[1, 0]] 2 = Inr [[(''A'', Fin 1), (''B'', Fin 0)]]"
    by (simp add: search_vectors_batch_def similarities_batch_def np_dot_mm_def fix_norm_def
       dot_def linalg_norm_def np_divide_def top_indices_def py_take_def b)
  have s: "similarities_single [[1, 0], [0, 0]] [0, 0] = Inr [NaN, NaN]"
    by (simp add: similarities_single_def np_dot_mv_def dot_def linalg_norm_def np_divide_def)
  have t: "similarities_batch [[1, 0], [0, 0]] [[0, 0]] = Inr [[Fin 0, Fin 0]]"
    by (simp add: similarities_batch_def np_dot_mm_def fix_norm_def dot_def linalg_norm_def
       np_divide_def)
  show "\<exists>r. search_vectors np_argsort ?st [0, 0] 2 = Inr r \<and> map snd r = [NaN, NaN]"
    using argsort_pair_cases[OF assms, of NaN NaN]
    by (auto simp: search_vectors_def s top_indices_def py_take_def)
  show "\<exists>r. search_vectors_batch np_argsort ?st [[0, 0]] 2 = Inr [r] \<and>
          map snd r = [Fin 0, Fin 0]"
    using argsort_pair_cases[OF assms, of "Fin 0" "Fin 0"]
    by (auto simp: search_vectors_batch_def t top_indices_def py_take_def)
qed

text \<open>
  The four results with the argsort that returns equal values in ascending index order.
\<close>

theorem search_vectors_batch_differs_witness:
  "search_vectors argsort_ties_ascending
     \<lparr>vectors_cache = Some [[1, 0], [0, 0]], item_skus = Some [''A'', ''B''],
      item_names = Some [''a'', ''b''], item_sku_to_index = Some [(''A'', 0), (''B'', 1)]\<rparr>
     [0, 0] 2 = Inr [(''B'', NaN), (''A'', NaN)] \<and>
   search_vectors_batch argsort_ties_ascending
     \<lparr>vectors_cache = Some [[1, 0], [0, 0]], item_skus = Some [''A'', ''B''],
      item_names = Some [''a'', ''b''], item_sku_to_index = Some [(''A'', 0), (''B'', 1)]\<rparr>
     [[0, 0]] 2 = Inr [[(''B'', Fin 0), (''A'', Fin 0)]] \<and>
   search_vectors argsort_ties_ascending
     \<lparr>vectors_cache = Some [[1, 0], [0, 0]], item_skus = Some [''A'', ''B''],
      item_names = Some [''a'', ''b''], item_sku_to_index = Some [(''A'', 0), (''B'', 1)]\<rparr>
     [1, 0] 2 = Inr [(''B'', NaN), (''A'', Fin 1)] \<and>
   search_vectors_batch argsort_ties_ascending
     \<lparr>vectors_cache = Some [[1, 0], [0, 0]], item_skus = Some [''A'', ''B''],
      item_names = Some [''a'', ''b''], item_sku_to_index = Some [(''A'', 0), (''B'', 1)]\<rparr>
     [[1, 0]] 2 = Inr [[(''A'', Fin 1), (''B'', Fin 0)]]"
proof -
  let ?st = "\<lparr>vectors_cache = Some [[1, 0], [0, 0]], item_skus = Some [''A'', ''B''],
      item_names = Some [''a'', ''b''], item_sku_to_index = Some [(''A'', 0), (''B'', 1)]\<rparr>"
  have z1: "search_vectors argsort_ties_ascending ?st [0, 0] 2 = Inr [(''B'', NaN), (''A'', NaN)]"
    by (simp add: search_vectors_def similarities_single_def np_dot_mv_def
       dot_def linalg_norm_def np_divide_def top_indices_def py_take_def
       argsort_ties_ascending_def upt2)
  have z2: "search_vectors_batch argsort_ties_ascending ?st [[0, 0]] 2 =
      Inr [[(''B'', Fin 0), (''A'', Fin 0)]]"
    by (simp add: search_vectors_batch_def similarities_batch_def np_dot_mm_def fix_norm_def
       dot_def linalg_norm_def np_divide_def top_indices_def py_take_def
       argsort_ties_ascending_def upt2)
  from search_vectors_batch_differs[OF argsort_ties_ascending_ok] z1 z2
  show ?thesis by blast
qed

text \<open>
  Claim C10 at its failing input: a cache file in the old format (no \<open>item_skus\<close> key).
  \<open>load_vectors_to_memory\<close> raises \<open>ValueError\<close>, but only after it has assigned
  \<open>_vectors_cache\<close>; from then on \<open>get_vectors\<close> returns the partial triple
  \<open>(vectors, None, None)\<close> and both searches fail with \<open>TypeError\<close> on
  \<open>_item_skus[idx]\<close>, not with \<open>RuntimeError\<close>.
\<close>

theorem partial_load_no_runtime_error:
  assumes "argsort_ok np_argsort"
  shows "load_vectors_to_memory
     (Pickled \<lparr>cd_vectors = Some [[1, 0]], cd_item_skus = None, cd_item_names = Some [''a'']\<rparr>)
     initial_cache =
     (Some ValueError,
      \<lparr>vectors_cache = Some [[1, 0]], item_skus = None, item_names = None,
       item_sku_to_index = None\<rparr>) \<and>
   get_vectors
     \<lparr>vectors_cache = Some [[1, 0]], item_skus = None, item_names = None,
      item_sku_to_index = None\<rparr> = Inr ([[1, 0]], None, None) \<and>
   search_vectors np_argsort
     \<lparr>vectors_cache = Some [[1, 0]], item_skus = None, item_names = None,
      item_sku_to_index = None\<rparr> [1, 0] 1 = Inl TypeError \<and>
   search_vectors_batch np_argsort
     \<lparr>vectors_cache = Some [[1, 0]], item_skus = None, item_names = None,
      item_sku_to_index = None\<rparr> [[1, 0]] 1 = Inl TypeError"
  by (simp add: load_vectors_to_memory_def initial_cache_def get_vectors_def
       search_vectors_def similarities_single_def np_dot_mv_def
       search_vectors_batch_def similarities_batch_def np_dot_mm_def fix_norm_def
       dot_def linalg_norm_def np_divide_def top_indices_def py_take_def
       argsort_singleton[OF assms])

text \<open>The same with an argsort at hand.\<close>

theorem partial_load_no_runtime_error_witness:
  "load_vectors_to_memory
     (Pickled \<lparr>cd_vectors = Some [[1, 0]], cd_item_skus = None, cd_item_names = Some [''a'']\<rparr>)
     initial_cache =
     (Some ValueError,
      \<lparr>vectors_cache = Some [[1, 0]], item_skus = None, item_names = None,
       item_sku_to_index = None\<rparr>) \<and>
   get_vectors
     \<lparr>vectors_cache = Some [[1, 0]], item_skus = None, item_names = None,
      item_sku_to_index = None\<rparr> = Inr ([[1, 0]], None, None) \<and>
   search_vectors argsort_ties_ascending
     \<lparr>vectors_cache = Some [[1, 0]], item_skus = None, item_names = None,
      item_sku_to_index = None\<rparr> [1, 0] 1 = Inl TypeError \<and>
   search_vectors_batch argsort_ties_ascending
     \<lparr>vectors_cache = Some [[1, 0]], item_skus = None, item_names = None,
      item_sku_to_index = None\<rparr> [[1, 0]] 1 = Inl TypeError"
  by (rule partial_load_no_runtime_error[OF argsort_ties_ascending_ok])

section \<open>get_suggestions: failures of the collaborators\<close>

lemma set_update_subset: "set (AList.update k v al) \<subseteq> insert (k, v) (set al)"
  by (induction al) auto

lemma fold_add_historical_history_only:
  assumes "\<forall>(k, r) \<in> set acc. vector_score r = 0 \<and> final_score r = historical_score r"
  shows "\<forall>(k, r) \<in> set (fold (add_historical hm) nh acc).
           vector_score r = 0 \<and> final_score r = historical_score r"
  using assms
proof (induction nh arbitrary: acc)
  case Nil
  then show ?case by simp
next
  case (Cons x nh)
  obtain k v where x: "x = (k, v)" by (cases x)
  have "\<forall>(k, r) \<in> set (add_historical hm x acc).
           vector_score r = 0 \<and> final_score r = historical_score r"
    using Cons.prems set_update_subset[of k _ acc]
    by (fastforce simp: add_historical_def x)
  then show ?case using Cons.IH by simp
qed

lemma combine_scores_history_only:
  "(k, r) \<in> set (combine_scores hm nh []) \<Longrightarrow>
     vector_score r = 0 \<and> final_score r = historical_score r"
  using fold_add_historical_history_only[of "[]" hm nh]
  by (auto simp: combine_scores_def)

lemma set_rank_scores:
  "x \<in> set (rank_scores k c) \<Longrightarrow> \<exists>sku m. (sku, m) \<in> set c \<and> x = (sku, final_score m, m)"
  using set_py_take[of k "sorted_reverse (\<lambda>x. final_score (snd x)) c"]
  by (auto simp: rank_scores_def set_sorted_reverse)

lemma suggestion_loop_elems:
  "suggestion_loop e skip cache hr = Inr l \<Longrightarrow> s \<in> set l \<Longrightarrow>
     \<exists>sku final m it. (sku, final, m) \<in> set hr \<and> s = make_suggestion sku final m it"
proof (induction hr arbitrary: l)
  case Nil
  then show ?case by simp
next
  case (Cons x hr)
  obtain sku final m where x: "x = (sku, final, m)" by (cases x)
  from Cons.prems(1) obtain it l' where
    l': "suggestion_loop e skip cache hr = Inr l'" and
    l: "l = l' \<or> l = make_suggestion sku final m it # l'"
    by (auto simp: x split: sum.splits if_splits)
  from l Cons.prems(2) have "s \<in> set l' \<or> s = make_suggestion sku final m it" by auto
  then show ?case
  proof
    assume "s \<in> set l'"
    from Cons.IH[OF l' this] show ?thesis by auto
  next
    assume "s = make_suggestion sku final m it"
    then show ?thesis unfolding x by auto
  qed
qed

lemma get_suggestions_total:
  "\<exists>l. get_suggestions e req k qv vr skip cache = Inr l"
  by (simp add: get_suggestions_def split: sum.splits)

lemma calculate_hybrid_score_embedding_failure:
  "generate_embedding e req = Inl err \<Longrightarrow>
     calculate_hybrid_score e req k None None = calculate_hybrid_score e req k None (Some [])"
  by (simp add: calculate_hybrid_score_def Let_def split: sum.splits)

lemma calculate_hybrid_score_search_failure:
  "search_vectors_call e q (k * 2) = Inl err \<Longrightarrow>
     calculate_hybrid_score e req k (Some q) None = calculate_hybrid_score e req k (Some q) (Some [])"
  by (simp add: calculate_hybrid_score_def Let_def split: sum.splits)

lemma get_suggestions_history_only:
  assumes "get_suggestions e req k qv (Some []) skip cache = Inr l"
  shows "list_all (\<lambda>s. s_vector_score s = 0 \<and> s_confidence_score s = s_historical_score s) l"
proof -
  have "s_vector_score s = 0 \<and> s_confidence_score s = s_historical_score s" if s: "s \<in> set l" for s
  proof -
    from s have ne: "l \<noteq> []" by auto
    with assms obtain hr where
      hr: "calculate_hybrid_score e req k qv (Some []) = Inr hr" and
      lp: "suggestion_loop e skip cache hr = Inr l"
      by (auto simp: get_suggestions_def get_suggestions_body_def split: sum.splits)
    from suggestion_loop_elems[OF lp s] obtain sku final m it where
      mem: "(sku, final, m) \<in> set hr" and sm: "s = make_suggestion sku final m it" by blast
    from hr obtain hm where
      "hr = rank_scores k (combine_scores hm (normalize_frequencies hm) [])"
      by (auto simp: calculate_hybrid_score_def Let_def split: sum.splits)
    with mem set_rank_scores obtain sku' m' where
      "(sku', m') \<in> set (combine_scores hm (normalize_frequencies hm) [])"
      "(sku, final, m) = (sku', final_score m', m')" by blast
    then have "vector_score m = 0 \<and> final = historical_score m"
      using combine_scores_history_only by fastforce
    then show ?thesis by (simp add: sm make_suggestion_def)
  qed
  then show ?thesis by (simp add: list_all_iff)
qed

text \<open>
  Claim C8. \<open>get_suggestions\<close> always returns a list, whatever its collaborators do
  (empty history, empty vector results, any of them raising). When embedding generation
  raises, the call behaves exactly as with empty vector results: the requirement is scored on
  history alone, and every suggestion returned has \<open>vector_score = 0\<close> and a confidence
  equal to its historical score. When the vector search raises, the call again behaves as
  with empty vector results. When the history lookup itself raises, the result is the empty
  list.
\<close>

theorem get_suggestions_never_raises:
  "(\<exists>l. get_suggestions e req k qv vr skip cache = Inr l) \<and>
   (generate_embedding e req = Inl err \<longrightarrow>
      get_suggestions e req k None None skip cache =
        get_suggestions e req k None (Some []) skip cache \<and>
      (\<exists>l. get_suggestions e req k None None skip cache = Inr l \<and>
           list_all (\<lambda>s. s_vector_score s = 0 \<and> s_confidence_score s = s_historical_score s) l)) \<and>
   (search_vectors_call e q (k * 2) = Inl err \<longrightarrow>
      get_suggestions e req k (Some q) None skip cache =
        get_suggestions e req k (Some q) (Some []) skip cache) \<and>
   (get_all_historical_mappings e req = Inl err \<longrightarrow>
      get_suggestions e req k qv vr skip cache = Inr [])"
proof (intro conjI impI)
  show "\<exists>l. get_suggestions e req k qv vr skip cache = Inr l" by (rule get_suggestions_total)
next
  assume a: "generate_embedding e req = Inl err"
  show eq: "get_suggestions e req k None None skip cache =
        get_suggestions e req k None (Some []) skip cache"
    by (simp add: get_suggestions_def get_suggestions_body_def
          calculate_hybrid_score_embedding_failure[OF a])
  obtain l where l: "get_suggestions e req k None (Some []) skip cache = Inr l"
    using get_suggestions_total by blast
  with get_suggestions_history_only[OF l] eq
  show "\<exists>l. get_suggestions e req k None None skip cache = Inr l \<and>
           list_all (\<lambda>s. s_vector_score s = 0 \<and> s_confidence_score s = s_historical_score s) l"
    by simp
next
  assume a: "search_vectors_call e q (k * 2) = Inl err"
  show "get_suggestions e req k (Some q) None skip cache =
        get_suggestions e req k (Some q) (Some []) skip cache"
    by (simp add: get_suggestions_def get_suggestions_body_def
          calculate_hybrid_score_search_failure[OF a])
next
  assume "get_all_historical_mappings e req = Inl err"
  then show "get_suggestions e req k qv vr skip cache = Inr []"
    by (simp add: get_suggestions_def get_suggestions_body_def calculate_hybrid_score_def)
qed

text \<open>
  The theorem with the history of the worked example and an embedding service that raises:
  two suggestions, scored \<open>0.7\<close> and \<open>0.14\<close> on history alone.
\<close>

theorem get_suggestions_never_raises_witness:
  "get_suggestions
     \<lparr>get_all_historical_mappings = (\<lambda>r. Inr [(''SKU-A'', 5), (''SKU-B'', 1)]),
      generate_embedding = (\<lambda>r. Inl OtherError),
      search_vectors_call = (\<lambda>q k. Inl RuntimeError),
      get_item_by_sku = (\<lambda>s. Inr None)\<rparr>
     ''Test Tube 10ml'' 3 None None True None =
   Inr [make_suggestion ''SKU-A'' (7 / 10)
          \<lparr>historical_score = 7 / 10, vector_score = 0, historical_frequency = 5,
           vector_similarity = 0, final_score = 7 / 10\<rparr> None,
        make_suggestion ''SKU-B'' (14 / 100)
          \<lparr>historical_score = 14 / 100, vector_score = 0, historical_frequency = 1,
           vector_similarity = 0, final_score = 14 / 100\<rparr> None]"
proof -
  let ?e = "\<lparr>get_all_historical_mappings = (\<lambda>r. Inr [(''SKU-A'', 5), (''SKU-B'', 1)]),
      generate_embedding = (\<lambda>r. Inl OtherError),
      search_vectors_call = (\<lambda>q k. Inl RuntimeError),
      get_item_by_sku = (\<lambda>s. Inr None)\<rparr>"
  have "get_suggestions ?e ''Test Tube 10ml'' 3 None None True None =
        get_suggestions ?e ''Test Tube 10ml'' 3 None (Some []) True None"
    using get_suggestions_never_raises[of ?e "''Test Tube 10ml''" 3 None None True None OtherError]
    by simp
  also have "\<dots> = Inr [make_suggestion ''SKU-A'' (7 / 10)
          \<lparr>historical_score = 7 / 10, vector_score = 0, historical_frequency = 5,
           vector_similarity = 0, final_score = 7 / 10\<rparr> None,
        make_suggestion ''SKU-B'' (14 / 100)
          \<lparr>historical_score = 14 / 100, vector_score = 0, historical_frequency = 1,
           vector_similarity = 0, final_score = 14 / 100\<rparr> None]"
    by (simp add: get_suggestions_def get_suggestions_body_def calculate_hybrid_score_def
          normalize_frequencies_def rank_scores_def combine_scores_def add_historical_def
          sorted_reverse_def py_take_def HISTORY_WEIGHT_def)
  finally show ?thesis .
qed

section \<open>generate_embeddings_batch: chunks, failures and alignment\<close>

declare batches_from.simps [simp del]


lemma map2_upt_snoc:
  "map2 f [0..<Suc (length rs)] (rs @ [b]) = map2 f [0..<length rs] rs @ [f (length rs) b]"
  by simp






section \<open>generate_vectors: the run counters\<close>

lemma count_loop_sum:
  "fst (count_loop upd zs (s, f)) + snd (count_loop upd zs (s, f)) = s + f + length zs"
  by (induction upd zs "(s, f)" arbitrary: s f rule: count_loop.induct)
     (auto split: option.splits)

text \<open>When every worker reaches the update of the counters, the totals are exact.\<close>

lemma process_batch_worker_counts:
  assumes "reaches_counters run batch"
  shows "fst (snd (process_batch_worker run batch (s, f))) +
         snd (snd (process_batch_worker run batch (s, f))) = s + f + length batch"
proof -
  let ?embs = "worker_embeddings (embedding_response run) (map snd batch)"
  have l: "length ?embs = length batch"
    using assms by (auto simp: reaches_counters_def worker_embeddings_def split: sum.splits)
  let ?zs = "zip (map fst batch) ?embs"
  have "fst (count_loop (update_vector run) ?zs (0, 0)) +
        snd (count_loop (update_vector run) ?zs (0, 0)) = length batch"
    using count_loop_sum[of "update_vector run" ?zs 0 0] l by simp
  then show ?thesis
    using assms by (simp add: process_batch_worker_def reaches_counters_def Let_def split_def)
qed

lemma run_batches_counts:
  assumes "\<forall>k<length bs. reaches_counters (runs (n + k)) (bs ! k)"
  shows "fst (run_batches runs n bs (s, f)) + snd (run_batches runs n bs (s, f)) =
         s + f + sum_list (map length bs)"
  using assms
proof (induction bs arbitrary: n s f)
  case Nil
  then show ?case by simp
next
  case (Cons b bs)
  obtain s' f' where w: "snd (process_batch_worker (runs n) b (s, f)) = (s', f')"
    by (cases "snd (process_batch_worker (runs n) b (s, f))")
  have "reaches_counters (runs n) b" using Cons.prems by force
  from process_batch_worker_counts[OF this, of s f] w
  have sf: "s' + f' = s + f + length b" by simp
  have "\<forall>k<length bs. reaches_counters (runs (Suc n + k)) (bs ! k)"
    using Cons.prems by force
  from Cons.IH[OF this, of s' f'] w sf show ?case by simp
qed

lemma sum_length_batches_from:
  "0 < B \<Longrightarrow> sum_list (map length (batches_from B items i)) = length items - i"
proof (induction B items i rule: batches_from.induct)
  case (1 B items i)
  show ?case
  proof (cases "i < length items")
    case True
    then have c: "i < length items \<and> 0 < B" using "1.prems" by simp
    have "batches_from B items i = take B (drop i items) # batches_from B items (i + B)"
      using c by (subst batches_from.simps) simp
    with "1.IH"[OF c "1.prems"] True show ?thesis by auto
  next
    case False
    then show ?thesis by (subst batches_from.simps) simp
  qed
qed

lemma generate_vectors_main_counts:
  assumes "0 < B" and "items \<noteq> []"
    and "\<forall>k<length (batches_from B items 0). reaches_counters (runs k) (batches_from B items 0 ! k)"
  shows "fst (generate_vectors_main runs B items counters) +
         snd (generate_vectors_main runs B items counters) = length items"
  using run_batches_counts[of "batches_from B items 0" runs 0 0 0] assms
    sum_length_batches_from[of B items 0]
  by (simp add: generate_vectors_main_def)

text \<open>
  Claim C6 at its failing inputs: a run of one batch of one item. When the client cannot be
  built, the worker returns \<open>(0, 1)\<close> from its \<open>except\<close> branch without touching the
  global counters, and \<open>main\<close>, which reports the global counters and ignores what the
  worker returned, ends with \<open>succeeded + failed = 0\<close> for one item attempted. The same
  happens when the commit fails with an exception that is not an \<open>OperationalError\<close>, and
  when \<open>connect_sqlite\<close> fails in the worker. The last line is the run in which nothing
  fails: \<open>(1, 0)\<close>.
\<close>

theorem worker_exception_drops_batch:
  "process_batch_worker
     \<lparr>connects = True, client_created = False, embedding_response = Inr [[1]],
      update_vector = (\<lambda>sku. True), commit = Committed\<rparr>
     [(''S1'', ''Beaker'')] (0, 0) = (Inr (0, 1), (0, 0)) \<and>
   generate_vectors_main
     (\<lambda>n. \<lparr>connects = True, client_created = False, embedding_response = Inr [[1]],
           update_vector = (\<lambda>sku. True), commit = Committed\<rparr>)
     100 [(''S1'', ''Beaker'')] (0, 0) = (0, 0) \<and>
   generate_vectors_main
     (\<lambda>n. \<lparr>connects = True, client_created = True, embedding_response = Inr [[1]],
           update_vector = (\<lambda>sku. True), commit = OtherFailure\<rparr>)
     100 [(''S1'', ''Beaker'')] (0, 0) = (0, 0) \<and>
   generate_vectors_main
     (\<lambda>n. \<lparr>connects = False, client_created = True, embedding_response = Inr [[1]],
           update_vector = (\<lambda>sku. True), commit = Committed\<rparr>)
     100 [(''S1'', ''Beaker'')] (0, 0) = (0, 0) \<and>
   generate_vectors_main
     (\<lambda>n. \<lparr>connects = True, client_created = True, embedding_response = Inr [[1]],
           update_vector = (\<lambda>sku. True), commit = Committed\<rparr>)
     100 [(''S1'', ''Beaker'')] (0, 0) = (1, 0)"
  by (simp add: generate_vectors_main_def process_batch_worker_def batches_from.simps
        worker_embeddings_def)

end
